theory Spec2Isabelle
  imports Complex_Main "HOL-Library.Sublist" "HOL-Library.Char_ord" "HOL-Library.AList"
begin

section \<open>Regular expressions as the program uses them\<close>

text \<open>
  The program is a chain of calls to Python's \<^verbatim>\<open>re\<close> module on fixed patterns. The
  patterns are embedded as terms of a small regular-expression type and run by a
  backtracking matcher with Python's priorities: alternatives left to right, quantifiers
  greedy, the leftmost match first. The type covers what the patterns of
  \<^verbatim>\<open>transcripts.py\<close> are built from: literal text, \<^verbatim>\<open>.\<close> (any character but a
  newline), character ranges, the quantifiers \<^verbatim>\<open>*\<close>, \<^verbatim>\<open>+\<close> and \<^verbatim>\<open>?\<close> on a single
  character item, concatenation, alternation and capturing groups. Every pattern of the
  program consumes at least one character; the scanning functions below are written for
  such patterns.
\<close>

datatype atom = Chr char | Dot | Rng char char

datatype rx =
    Lit string
  | One atom
  | Star atom
  | Plus atom
  | Opt atom
  | Seq rx rx
  | Alt rx rx
  | Grp rx

definition newline :: char where
  "newline = CHR 0x0A"

fun atom_ok :: "atom \<Rightarrow> char \<Rightarrow> bool" where
  "atom_ok (Chr a) c = (c = a)"
| "atom_ok Dot c = (c \<noteq> newline)"
| "atom_ok (Rng lo hi) c = (lo \<le> c \<and> c \<le> hi)"

text \<open>
  A match is the text consumed, the texts of the capturing groups in the order the groups
  open, and the rest of the subject. \<open>star_match\<close> lists the ways a greedy \<^verbatim>\<open>*\<close> can
  match, the longest first, which is the order in which Python tries them.
\<close>

type_synonym match = "string \<times> string list \<times> string"

fun star_match :: "atom \<Rightarrow> string \<Rightarrow> (string \<times> string) list" where
  "star_match a [] = [([], [])]"
| "star_match a (c # cs) =
     (if atom_ok a c
      then map (\<lambda>(m, rest). (c # m, rest)) (star_match a cs) @ [([], c # cs)]
      else [([], c # cs)])"

fun rx_match :: "rx \<Rightarrow> string \<Rightarrow> match list" where
  "rx_match (Lit l) s =
     (if prefix l s then [(l, [], drop (length l) s)] else [])"
| "rx_match (One a) s =
     (case s of [] \<Rightarrow> [] | c # cs \<Rightarrow> if atom_ok a c then [([c], [], cs)] else [])"
| "rx_match (Star a) s = map (\<lambda>(m, rest). (m, [], rest)) (star_match a s)"
| "rx_match (Plus a) s =
     (case s of [] \<Rightarrow> []
      | c # cs \<Rightarrow>
          if atom_ok a c then map (\<lambda>(m, rest). (c # m, [], rest)) (star_match a cs) else [])"
| "rx_match (Opt a) s =
     (case s of [] \<Rightarrow> [([], [], [])]
      | c # cs \<Rightarrow> if atom_ok a c then [([c], [], cs), ([], [], s)] else [([], [], s)])"
| "rx_match (Seq r1 r2) s =
     concat (map (\<lambda>(m1, g1, s1). map (\<lambda>(m2, g2, s2). (m1 @ m2, g1 @ g2, s2)) (rx_match r2 s1))
                 (rx_match r1 s))"
| "rx_match (Alt r1 r2) s = rx_match r1 s @ rx_match r2 s"
| "rx_match (Grp r) s = map (\<lambda>(m, g, rest). (m, m # g, rest)) (rx_match r s)"

text \<open>
  \<open>re_search\<close> is \<^verbatim>\<open>re.search\<close>: the leftmost position at which the pattern matches,
  and the first match there. It returns the text before the match, the match, its groups
  and the text after it.
\<close>

fun re_search :: "rx \<Rightarrow> string \<Rightarrow> (string \<times> string \<times> string list \<times> string) option" where
  "re_search r s =
     (case rx_match r s of
        (m, g, rest) # _ \<Rightarrow> Some ([], m, g, rest)
      | [] \<Rightarrow>
          (case s of
             [] \<Rightarrow> None
           | c # cs \<Rightarrow> map_option (\<lambda>(pre, m, g, rest). (c # pre, m, g, rest)) (re_search r cs)))"

declare re_search.simps [simp del]

lemma star_match_decomp:
  "(m, rest) \<in> set (star_match a s) \<Longrightarrow> s = m @ rest"
  by (induction s arbitrary: m rest) (auto split: if_splits)

lemma rx_match_decomp:
  "(m, g, rest) \<in> set (rx_match r s) \<Longrightarrow> s = m @ rest"
proof (induction r arbitrary: m g rest s)
  case (Lit l)
  then show ?case by (auto simp: prefix_def split: if_splits)
next
  case (Seq r1 r2)
  then show ?case by fastforce
qed (auto split: list.splits if_splits dest: star_match_decomp)

lemma re_search_decomp:
  "re_search r s = Some (pre, m, g, rest) \<Longrightarrow> s = pre @ m @ rest"
proof (induction s arbitrary: pre)
  case Nil
  then show ?case
    using rx_match_decomp [of m g rest r "[]"]
    by (auto simp: re_search.simps [of r "[]"] split: list.splits)
next
  case (Cons c cs)
  show ?case
  proof (cases "rx_match r (c # cs)")
    case Nil
    with Cons.prems obtain pre' where
      "re_search r cs = Some (pre', m, g, rest)" "pre = c # pre'"
      by (auto simp: re_search.simps [of r "c # cs"])
    with Cons.IH show ?thesis by simp
  next
    case (Cons x xs)
    with Cons.prems have "(m, g, rest) \<in> set (rx_match r (c # cs))" "pre = []"
      by (auto simp: re_search.simps [of r "c # cs"])
    then show ?thesis using rx_match_decomp by fastforce
  qed
qed

text \<open>
  \<open>finditer\<close> lists the non-overlapping matches from left to right, each with its
  groups; \<^verbatim>\<open>re.findall\<close>, \<^verbatim>\<open>re.split\<close> and \<^verbatim>\<open>re.sub\<close> are read off it as Python
  does. The scan resumes where the last match ended. A pattern that matched the empty
  string would make no progress there; no pattern of the program does, and the scan
  stops in that case.
\<close>

function finditer :: "rx \<Rightarrow> string \<Rightarrow> (string \<times> string list) list" where
  "finditer r s =
     (case re_search r s of
        None \<Rightarrow> []
      | Some (pre, m, g, rest) \<Rightarrow> if m = [] then [] else (m, g) # finditer r rest)"
  by pat_completeness auto
termination
  by (relation "measure (\<lambda>(r, s). length s)") (auto dest: re_search_decomp)

declare finditer.simps [simp del]

text \<open>
  \<^verbatim>\<open>re.findall\<close> returns the whole match for a pattern without groups and the group for
  a pattern with one group (\<open>findall\<close>); for a pattern with several groups it returns
  the tuple of the groups (\<open>findall_groups\<close>).
\<close>

definition findall :: "rx \<Rightarrow> string \<Rightarrow> string list" where
  "findall r s = map (\<lambda>(m, g). case g of [] \<Rightarrow> m | x # _ \<Rightarrow> x) (finditer r s)"

definition findall_groups :: "rx \<Rightarrow> string \<Rightarrow> string list list" where
  "findall_groups r s = map snd (finditer r s)"

text \<open>\<^verbatim>\<open>re.split\<close>: the text between the matches, with the groups of each match after
  the text that precedes it.\<close>

function re_split :: "rx \<Rightarrow> string \<Rightarrow> string list" where
  "re_split r s =
     (case re_search r s of
        None \<Rightarrow> [s]
      | Some (pre, m, g, rest) \<Rightarrow> if m = [] then [s] else pre # g @ re_split r rest)"
  by pat_completeness auto
termination
  by (relation "measure (\<lambda>(r, s). length s)") (auto dest: re_search_decomp)

declare re_split.simps [simp del]

text \<open>\<^verbatim>\<open>re.sub\<close> with a replacement template: literal text and group references
  (\<^verbatim>\<open>\1\<close> is \<open>Ref 0\<close>).\<close>

datatype tmpl = Txt string | Ref nat

fun expand :: "tmpl list \<Rightarrow> string list \<Rightarrow> string" where
  "expand [] g = []"
| "expand (Txt t # ts) g = t @ expand ts g"
| "expand (Ref n # ts) g = (if n < length g then g ! n else []) @ expand ts g"

function re_sub :: "rx \<Rightarrow> tmpl list \<Rightarrow> string \<Rightarrow> string" where
  "re_sub r t s =
     (case re_search r s of
        None \<Rightarrow> s
      | Some (pre, m, g, rest) \<Rightarrow>
          if m = [] then s else pre @ expand t g @ re_sub r t rest)"
  by pat_completeness auto
termination
  by (relation "measure (\<lambda>(r, t, s). length s)") (auto dest: re_search_decomp)

declare re_sub.simps [simp del]

text \<open>A pattern written as a sequence of items, and one written as alternatives.\<close>

fun seqs :: "rx list \<Rightarrow> rx" where
  "seqs [] = Lit []"
| "seqs [r] = r"
| "seqs (r # rs) = Seq r (seqs rs)"

fun alts :: "rx list \<Rightarrow> rx" where
  "alts [] = Lit []"
| "alts [r] = r"
| "alts (r # rs) = Alt r (alts rs)"

section \<open>Python values, dictionaries and exceptions\<close>

text \<open>
  An exception that leaves a function is the left injection of its result; the run is
  aborted and nothing else of it is returned. \<open>StructuralError\<close> is the
  \<^verbatim>\<open>Exception("Splitting by semesters went wrong.")\<close> of \<^verbatim>\<open>grades_of_subj\<close>.

  A dictionary is an association list with distinct keys in insertion order: storing
  under a key that is present replaces the value in place, storing under a new key
  appends (\<open>AList.update\<close>), as Python's \<^verbatim>\<open>dict\<close> does.

  Floating-point numbers are modelled by exact rationals, and \<^verbatim>\<open>nan\<close> by a value of its
  own: sums, products and quotients are exact, where the program rounds to binary64.
  Characters are the 8-bit characters of HOL.
\<close>

datatype error = IndexError | KeyError | ValueError | StructuralError

datatype pyval = PyStr string | PyInt int | PyFloat rat | PyNaN

type_synonym ('k, 'v) dict = "('k \<times> 'v) list"

definition keys :: "('k, 'v) dict \<Rightarrow> 'k list" where
  "keys d = map fst d"

definition getitem :: "('k, 'v) dict \<Rightarrow> 'k \<Rightarrow> error + 'v" where
  "getitem d k = (case map_of d k of None \<Rightarrow> Inl KeyError | Some v \<Rightarrow> Inr v)"

definition dict_update :: "('k, 'v) dict \<Rightarrow> ('k, 'v) dict \<Rightarrow> ('k, 'v) dict" where
  "dict_update d other = fold (\<lambda>(k, v) acc. AList.update k v acc) other d"

text \<open>
  A \<^verbatim>\<open>for\<close> loop whose body may raise: the state is threaded through the items and the
  first exception ends the loop. \<open>sequence\<close> is a list comprehension whose items may
  raise.
\<close>

fun for_each :: "('s \<Rightarrow> 'a \<Rightarrow> error + 's) \<Rightarrow> 'a list \<Rightarrow> 's \<Rightarrow> error + 's" where
  "for_each f [] st = Inr st"
| "for_each f (x # xs) st =
     (case f st x of Inl e \<Rightarrow> Inl e | Inr st' \<Rightarrow> for_each f xs st')"

fun sequence :: "(error + 'a) list \<Rightarrow> error + 'a list" where
  "sequence [] = Inr []"
| "sequence (x # xs) =
     (case x of
        Inl e \<Rightarrow> Inl e
      | Inr v \<Rightarrow> (case sequence xs of Inl e \<Rightarrow> Inl e | Inr vs \<Rightarrow> Inr (v # vs)))"

text \<open>\<^verbatim>\<open>sum\<close> of a list of floats: the integer 0 for the empty list.\<close>

definition py_sum :: "rat list \<Rightarrow> pyval" where
  "py_sum xs = (if xs = [] then PyInt 0 else PyFloat (sum_list xs))"

fun num_of :: "pyval \<Rightarrow> rat" where
  "num_of (PyInt i) = of_int i"
| "num_of (PyFloat q) = q"
| "num_of _ = 0"

text \<open>\<^verbatim>\<open>float\<close> on the strings the credit pattern captures: a digit, a dot, two
  digits. Other strings do not reach it and are given \<open>ValueError\<close>.\<close>

definition is_digit :: "char \<Rightarrow> bool" where
  "is_digit c = (CHR ''0'' \<le> c \<and> c \<le> CHR ''9'')"

definition digit_val :: "char \<Rightarrow> nat" where
  "digit_val c = of_char c - of_char CHR ''0''"

definition py_float :: "string \<Rightarrow> error + rat" where
  "py_float s =
     (case s of
        [a, p, b, c] \<Rightarrow>
          if is_digit a \<and> p = CHR ''.'' \<and> is_digit b \<and> is_digit c
          then Inr (of_nat (digit_val a) + of_nat (10 * digit_val b + digit_val c) / 100)
          else Inl ValueError
      | _ \<Rightarrow> Inl ValueError)"

section \<open>Configuration\<close>

text \<open>
  The global variables of the module, which its comments call "designed to be modified".
  The functions read them when they run, so they are a parameter \<open>cfg\<close> of every
  function that does; \<open>default_config\<close> holds the values of the source. (\<^verbatim>\<open>IN_DIR\<close>
  and \<^verbatim>\<open>OUT_DIR\<close> only name directories for reading the PDF and writing the
  spreadsheet.)
\<close>

record config =
  CURR_SEM :: string
  SUBJECTS :: "string list"
  IGNORE_COURSES :: "(string, string list) dict"
  GPA_VAL :: "(string, rat) dict"

definition default_config :: config where
  "default_config =
     \<lparr>CURR_SEM = ''S22'',
      SUBJECTS = [''MTH'', ''PHY''],
      IGNORE_COURSES =
        [(''MTH'', [''MTH 1'', ''MTH 3'', ''MTH 4'', ''MTH 5'', ''MTH 6'', ''MTH 15'', ''MTH 16'',
                    ''MTH 19'', ''MTH 90'']),
         (''PHY'', [''PHY 3'', ''PHY 4''])],
      GPA_VAL =
        [(''A'', 4), (''A-'', 3667 / 1000), (''B+'', 3333 / 1000), (''B'', 3),
         (''B-'', 2667 / 1000), (''C+'', 2333 / 1000), (''C'', 2), (''C-'', 1667 / 1000),
         (''D'', 1), (''F'', 0)]\<rparr>"

section \<open>The patterns of \<^verbatim>\<open>transcripts.py\<close>\<close>

text \<open>
  \<open>name_splitter\<close> and \<open>subj\<close> are spliced into patterns by the program; the model
  takes them as literal text, which they are for the default delimiter and for the
  configured subjects.
\<close>

definition digit :: atom where
  "digit = Rng CHR ''0'' CHR ''9''"

definition upper :: atom where
  "upper = Rng CHR ''A'' CHR ''Z''"

definition hours_rx :: rx where
  \<comment> \<open>\<^verbatim>\<open>[0-9]\.[0-9][0-9]\<close>\<close>
  "hours_rx = seqs [One digit, Lit ''.'', One digit, One digit]"

definition spaces_rx :: rx where
  \<comment> \<open>\<^verbatim>\<open> + *\<close>\<close>
  "spaces_rx = Seq (Plus (Chr CHR '' '')) (Star (Chr CHR '' ''))"

definition names_rx :: "string \<Rightarrow> rx" where
  \<comment> \<open>\<^verbatim>\<open>name_splitter+"(.*)\n"\<close>\<close>
  "names_rx name_splitter = seqs [Lit name_splitter, Grp (Star Dot), Lit [newline]]"

definition student_id_rx :: rx where
  \<comment> \<open>\<^verbatim>\<open>Student ID: (.*)\n\<close>\<close>
  "student_id_rx = seqs [Lit ''Student ID: '', Grp (Star Dot), Lit [newline]]"

definition sex_rx :: rx where
  \<comment> \<open>\<^verbatim>\<open>Sex : (.*)\n\<close>\<close>
  "sex_rx = seqs [Lit ''Sex : '', Grp (Star Dot), Lit [newline]]"

definition address_rx :: rx where
  \<comment> \<open>\<^verbatim>\<open>Address : (.*)\n (.*)\n (.*)\n\<close>\<close>
  "address_rx =
     seqs [Lit ''Address : '', Grp (Star Dot), Lit (newline # '' ''), Grp (Star Dot),
           Lit (newline # '' ''), Grp (Star Dot), Lit [newline]]"

definition semester_rx :: rx where
  \<comment> \<open>\<^verbatim>\<open>(Fall 20..|Spring 20..|Summer 20..|Winter 20..)\<close>\<close>
  "semester_rx =
     Grp (alts [seqs [Lit ''Fall 20'', One Dot, One Dot],
                seqs [Lit ''Spring 20'', One Dot, One Dot],
                seqs [Lit ''Summer 20'', One Dot, One Dot],
                seqs [Lit ''Winter 20'', One Dot, One Dot]])"

definition plan_rx :: rx where
  \<comment> \<open>\<^verbatim>\<open>Plan : (.*)\n\<close>\<close>
  "plan_rx = seqs [Lit ''Plan : '', Grp (Star Dot), Lit [newline]]"

definition raw_grades_rx :: "string \<Rightarrow> rx" where
  \<comment> \<open>\<^verbatim>\<open>subj + " .* [0-9]\.[0-9][0-9].*\n"\<close>\<close>
  "raw_grades_rx subj =
     seqs [Lit (subj @ '' ''), Star Dot, Lit '' '', hours_rx, Star Dot, Lit [newline]]"

definition course_num_rx :: "string \<Rightarrow> rx" where
  \<comment> \<open>\<^verbatim>\<open>subj + " ([0-9]+[A-Z]?|NE) "\<close>\<close>
  "course_num_rx subj =
     seqs [Lit (subj @ '' ''), Grp (Alt (Seq (Plus digit) (Opt upper)) (Lit ''NE'')), Lit '' '']"

definition grade_rx :: rx where
  \<comment> \<open>\<^verbatim>\<open>[0-9]\.[0-9][0-9] [0-9]\.[0-9][0-9] ([A-Z]\+?\-?)\<close>\<close>
  "grade_rx =
     seqs [hours_rx, Lit '' '', hours_rx, Lit '' '',
           Grp (seqs [One upper, Opt (Chr CHR ''+''), Opt (Chr CHR ''-'')])]"

definition year_rx :: rx where
  \<comment> \<open>\<^verbatim>\<open>20([0-9][0-9])\<close>\<close>
  "year_rx = Seq (Lit ''20'') (Grp (Seq (One digit) (One digit)))"

section \<open>The functions of \<^verbatim>\<open>transcripts.py\<close>\<close>

definition remove_extra_spaces :: "string \<Rightarrow> string" where
  "remove_extra_spaces text = re_sub spaces_rx [Txt '' ''] text"

text \<open>
  \<^verbatim>\<open>separate_students\<close> returns the list of transcripts, or with \<^verbatim>\<open>name_ret=True\<close>
  the pair of the transcripts and the names.
\<close>

datatype students = Transcripts "string list" | TranscriptsNames "string list" "string list"

definition separate_students :: "string \<Rightarrow> string \<Rightarrow> bool \<Rightarrow> students" where
  "separate_students text name_splitter name_ret =
     (let names = findall (names_rx name_splitter) text;
          transcripts = map (\<lambda>t. name_splitter @ t) (tl (re_split (Lit name_splitter) text))
      in if name_ret then TranscriptsNames transcripts names else Transcripts transcripts)"

definition personal_info :: "string \<Rightarrow> error + (string, pyval) dict" where
  "personal_info transcript =
     (case findall (names_rx ''Name : '') transcript of
        [] \<Rightarrow> Inl IndexError
      | name # _ \<Rightarrow>
     (case findall student_id_rx transcript of
        [] \<Rightarrow> Inl IndexError
      | student_id # _ \<Rightarrow>
     (case findall sex_rx transcript of
        [] \<Rightarrow> Inl IndexError
      | sex # _ \<Rightarrow>
     (case (case findall_groups address_rx transcript of
              [] \<Rightarrow> Inr ([], [], [])
            | a # _ \<Rightarrow>
                (case a of
                   a1 # a2 # a3 # _ \<Rightarrow> Inr (a1, a2, a3)
                 | _ \<Rightarrow> Inl IndexError)) of
        Inl e \<Rightarrow> Inl e
      | Inr (address1, address2, address3) \<Rightarrow>
          Inr [(''Name'', PyStr name),
               (''Student_ID'', PyStr student_id),
               (''Sex'', PyStr sex),
               (''Address1'', PyStr address1),
               (''Address2'', PyStr address2),
               (''Address3'', PyStr address3)]))))"

definition sem_abbr :: "string \<Rightarrow> string" where
  "sem_abbr semester =
     (let sem = re_sub year_rx [Ref 0] semester;
          sem = re_sub (Lit ''Fall '') [Txt ''F''] sem;
          sem = re_sub (Lit ''Spring '') [Txt ''S''] sem;
          sem = re_sub (Lit ''Summer '') [Txt ''Sum''] sem;
          sem = re_sub (Lit ''Winter '') [Txt ''Win''] sem
      in sem)"

text \<open>
  The body of the loop over the course lines of one semester (lines 243 to 257). The
  state is the dictionary of grades being built and the dictionary of credits, which
  the program updates in place. \<open>course_of\<close> is the course key of a line (lines 243
  and 244) and \<open>grade_of\<close> the value stored for it (lines 250 to 255); neither reads
  the state. \<open>semester_step\<close> is the body of the loop over the semesters.
\<close>

type_synonym grades = "(string, string) dict"

type_synonym creds = "(string, rat) dict"

definition course_of :: "string \<Rightarrow> string \<Rightarrow> error + string" where
  "course_of subj line =
     (case findall (course_num_rx subj) line of
        [] \<Rightarrow> Inl IndexError
      | course_num # _ \<Rightarrow> Inr (subj @ '' '' @ course_num))"

definition grade_of :: "string \<Rightarrow> string \<Rightarrow> string" where
  "grade_of semester line =
     (case findall grade_rx line of
        [] \<Rightarrow> sem_abbr semester
      | grade # _ \<Rightarrow> grade)"

definition line_step :: "string \<Rightarrow> string \<Rightarrow> grades \<times> creds \<Rightarrow> string \<Rightarrow> error + grades \<times> creds" where
  "line_step subj semester st line =
     (case st of (grades_dict, creds) \<Rightarrow>
     (case course_of subj line of
        Inl e \<Rightarrow> Inl e
      | Inr course \<Rightarrow>
     (case (if course \<notin> set (keys creds)
            then (case findall hours_rx line of
                    [] \<Rightarrow> Inl IndexError
                  | num_creds # _ \<Rightarrow>
                      (case py_float num_creds of
                         Inl e \<Rightarrow> Inl e
                       | Inr v \<Rightarrow> Inr (AList.update course v creds)))
            else Inr creds) of
        Inl e \<Rightarrow> Inl e
      | Inr creds' \<Rightarrow>
          Inr (AList.update course (grade_of semester line) grades_dict, creds'))))"

definition semester_step ::
  "string list \<Rightarrow> string \<Rightarrow> grades \<times> creds \<Rightarrow> nat \<Rightarrow> error + grades \<times> creds" where
  "semester_step semester_split subj st i =
     (let semester = semester_split ! (2 * i + 1);
          info = semester_split ! (2 * i + 2);
          raw_grades = findall (raw_grades_rx subj) info
      in for_each (line_step subj semester) raw_grades st)"

definition grades_of_subj :: "string \<Rightarrow> string \<Rightarrow> creds \<Rightarrow> error + grades \<times> creds" where
  "grades_of_subj transcript subj creds =
     (let semester_split = re_split semester_rx transcript
      in if length semester_split mod 2 \<noteq> 1 then Inl StructuralError
         else
           let plan = findall plan_rx (last semester_split);
               grades_dict = (case plan of [] \<Rightarrow> [] | p # _ \<Rightarrow> [(''Plan'', p)])
           in for_each (semester_step semester_split subj)
                [0..<length semester_split div 2] (grades_dict, creds))"

text \<open>
  \<^verbatim>\<open>subj_summary\<close>. \<^verbatim>\<open>IGNORE_COURSES[subj]\<close> is evaluated inside the comprehensions, so
  only when \<open>subj_grades\<close> has a key; \<^verbatim>\<open>creds[course]\<close> raises \<open>KeyError\<close> for a
  counted course without credits.
\<close>

definition courses_to_count :: "config \<Rightarrow> string \<Rightarrow> grades \<Rightarrow> error + string list" where
  "courses_to_count cfg subj subj_grades =
     (if subj_grades = [] then Inr []
      else
        (case getitem (IGNORE_COURSES cfg) subj of
           Inl e \<Rightarrow> Inl e
         | Inr ignored \<Rightarrow>
             Inr (filter (\<lambda>course. course \<notin> set ignored \<and>
                            (case map_of subj_grades course of
                               None \<Rightarrow> False
                             | Some grade \<Rightarrow> grade \<in> set (keys (GPA_VAL cfg))))
                    (keys subj_grades))))"

definition in_progress :: "config \<Rightarrow> string \<Rightarrow> grades \<Rightarrow> error + string list" where
  "in_progress cfg subj subj_grades =
     (if subj_grades = [] then Inr []
      else
        (case getitem (IGNORE_COURSES cfg) subj of
           Inl e \<Rightarrow> Inl e
         | Inr ignored \<Rightarrow>
             Inr (filter (\<lambda>course. course \<notin> set ignored \<and>
                            map_of subj_grades course = Some (CURR_SEM cfg))
                    (keys subj_grades))))"

definition grade_points :: "config \<Rightarrow> grades \<Rightarrow> creds \<Rightarrow> string \<Rightarrow> error + rat" where
  \<comment> \<open>\<^verbatim>\<open>GPA_VAL[subj_grades[course]]*creds[course]\<close>\<close>
  "grade_points cfg subj_grades creds course =
     (case getitem subj_grades course of
        Inl e \<Rightarrow> Inl e
      | Inr grade \<Rightarrow>
     (case getitem (GPA_VAL cfg) grade of
        Inl e \<Rightarrow> Inl e
      | Inr p \<Rightarrow>
     (case getitem creds course of
        Inl e \<Rightarrow> Inl e
      | Inr c \<Rightarrow> Inr (p * c))))"

definition subj_summary :: "config \<Rightarrow> string \<Rightarrow> grades \<Rightarrow> creds \<Rightarrow> error + (string, pyval) dict" where
  "subj_summary cfg subj subj_grades creds =
     (case courses_to_count cfg subj subj_grades of
        Inl e \<Rightarrow> Inl e
      | Inr counted \<Rightarrow>
     (let num_taken = length counted in
     (case sequence (map (getitem creds) counted) of
        Inl e \<Rightarrow> Inl e
      | Inr cs \<Rightarrow>
     (let creds_taken = py_sum cs in
     (case sequence (map (grade_points cfg subj_grades creds) counted) of
        Inl e \<Rightarrow> Inl e
      | Inr ps \<Rightarrow>
     (let gpa_creds = py_sum ps;
          gpa = (if num_of creds_taken > 0
                 then PyFloat (num_of gpa_creds / num_of creds_taken)
                 else PyNaN) in
     (case in_progress cfg subj subj_grades of
        Inl e \<Rightarrow> Inl e
      | Inr now \<Rightarrow>
          Inr [(''Num '' @ subj @ ''^ courses'', PyInt (int num_taken)),
               (''Num '' @ subj @ ''^ creds'', creds_taken),
               (subj @ ''^ GPA'', gpa),
               (''Num '' @ subj @ ''^ now'', PyInt (int (length now)))])))))))"

text \<open>
  \<^verbatim>\<open>transcript_data\<close>: the loop over the transcripts and the subjects (\<open>records_of\<close>,
  lines 133 to 141), then the table. \<^verbatim>\<open>natsorted\<close> belongs to an external library and
  is a parameter. A cell of the table is the record's value in that column, or nothing.
  The dictionary of credits is returned with the table: the program updates the caller's
  object.
\<close>

definition subject_step ::
  "config \<Rightarrow> string \<Rightarrow> (string, pyval) dict \<times> creds \<Rightarrow> string \<Rightarrow> error + (string, pyval) dict \<times> creds" where
  "subject_step cfg transcript st subj =
     (case st of (data_dict, creds) \<Rightarrow>
     (case grades_of_subj transcript subj creds of
        Inl e \<Rightarrow> Inl e
      | Inr (subj_grades, creds') \<Rightarrow>
     (let data_dict = dict_update data_dict (map (\<lambda>(k, v). (k, PyStr v)) subj_grades) in
     (case subj_summary cfg subj subj_grades creds' of
        Inl e \<Rightarrow> Inl e
      | Inr summary \<Rightarrow> Inr (dict_update data_dict summary, creds')))))"

definition transcript_step ::
  "config \<Rightarrow> (string, pyval) dict list \<times> creds \<Rightarrow> string \<Rightarrow> error + (string, pyval) dict list \<times> creds" where
  "transcript_step cfg st transcript =
     (case st of (records_list, creds) \<Rightarrow>
     (case personal_info transcript of
        Inl e \<Rightarrow> Inl e
      | Inr data_dict \<Rightarrow>
     (case for_each (subject_step cfg transcript) (SUBJECTS cfg) (data_dict, creds) of
        Inl e \<Rightarrow> Inl e
      | Inr (data_dict', creds') \<Rightarrow> Inr (records_list @ [data_dict'], creds'))))"

definition records_of :: "config \<Rightarrow> string list \<Rightarrow> creds \<Rightarrow> error + (string, pyval) dict list \<times> creds" where
  "records_of cfg transcripts creds = for_each (transcript_step cfg) transcripts ([], creds)"

record data_frame =
  columns :: "string list"
  rows :: "pyval option list list"

definition DataFrame :: "(string, pyval) dict list \<Rightarrow> string list \<Rightarrow> data_frame" where
  "DataFrame records cols =
     \<lparr>columns = cols, rows = map (\<lambda>r. map (map_of r) cols) records\<rparr>"

definition subj_summ_cols :: "config \<Rightarrow> string list" where
  "subj_summ_cols cfg =
     concat (map (\<lambda>subj. [''Num '' @ subj @ ''^ courses'', subj @ ''^ GPA'',
                           ''Num '' @ subj @ ''^ now'']) (SUBJECTS cfg))"

definition transcript_data ::
  "config \<Rightarrow> (string list \<Rightarrow> string list) \<Rightarrow> string list \<Rightarrow> creds \<Rightarrow> error + data_frame \<times> creds" where
  "transcript_data cfg natsorted transcripts creds =
     (case records_of cfg transcripts creds of
        Inl e \<Rightarrow> Inl e
      | Inr (records_list, creds') \<Rightarrow>
          Inr (DataFrame records_list
                 ([''Name'', ''Student_ID'', ''Plan'']
                  @ [''Sex'', ''Address1'', ''Address2'', ''Address3'']
                  @ subj_summ_cols cfg
                  @ natsorted (keys creds')),
               creds'))"

section \<open>Properties of the matcher\<close>

lemma in_rx_match_Seq:
  "(m, g, rest) \<in> set (rx_match (Seq r1 r2) s) \<longleftrightarrow>
   (\<exists>m1 g1 s1 m2 g2. (m1, g1, s1) \<in> set (rx_match r1 s) \<and> (m2, g2, rest) \<in> set (rx_match r2 s1)
                      \<and> m = m1 @ m2 \<and> g = g1 @ g2)"
  by (auto simp: image_iff) force+

lemma in_rx_match_Grp:
  "(m, g, rest) \<in> set (rx_match (Grp r) s) \<longleftrightarrow>
   (\<exists>g'. (m, g', rest) \<in> set (rx_match r s) \<and> g = m # g')"
  by force

lemma in_rx_match_Lit:
  "(m, g, rest) \<in> set (rx_match (Lit l) s) \<longleftrightarrow> m = l \<and> g = [] \<and> s = l @ rest"
  by (auto simp: prefix_def)

lemma in_rx_match_One:
  "(m, g, rest) \<in> set (rx_match (One a) s) \<longleftrightarrow>
   (\<exists>c. atom_ok a c \<and> m = [c] \<and> g = [] \<and> s = c # rest)"
  by (cases s) auto

lemma in_rx_match_Opt:
  "(m, g, rest) \<in> set (rx_match (Opt a) s) \<longleftrightarrow>
   g = [] \<and> ((\<exists>c. atom_ok a c \<and> m = [c] \<and> s = c # rest) \<or> (m = [] \<and> s = rest))"
  by (cases s) auto

lemma in_rx_match_Alt:
  "x \<in> set (rx_match (Alt r1 r2) s) \<longleftrightarrow> x \<in> set (rx_match r1 s) \<or> x \<in> set (rx_match r2 s)"
  by simp

lemma in_image_cons:
  "(m, rest) \<in> (\<lambda>(m, rest). (c # m, rest)) ` S \<longleftrightarrow> (\<exists>m'. m = c # m' \<and> (m', rest) \<in> S)"
  by force

lemma in_image_cons3:
  "(m, g, rest) \<in> (\<lambda>(m, rest). (c # m, [], rest)) ` S \<longleftrightarrow>
   (\<exists>m'. m = c # m' \<and> g = [] \<and> (m', rest) \<in> S)"
  by force

lemma in_image_nil3:
  "(m, g, rest) \<in> (\<lambda>(m, rest). (m, [], rest)) ` S \<longleftrightarrow> g = [] \<and> (m, rest) \<in> S"
  by force

lemma in_star_match:
  "(m, rest) \<in> set (star_match a s) \<longleftrightarrow> s = m @ rest \<and> (\<forall>c\<in>set m. atom_ok a c)"
proof (induction s arbitrary: m)
  case Nil
  then show ?case by auto
next
  case (Cons c cs)
  show ?case
  proof (cases m)
    case Nil
    then show ?thesis by (auto simp: Cons.IH in_image_cons)
  next
    case (Cons d m')
    then show ?thesis by (auto simp: Cons.IH in_image_cons)
  qed
qed

lemma in_rx_match_Star:
  "(m, g, rest) \<in> set (rx_match (Star a) s) \<longleftrightarrow>
   g = [] \<and> s = m @ rest \<and> (\<forall>c\<in>set m. atom_ok a c)"
  by (auto simp: in_star_match in_image_nil3)

lemma in_rx_match_Plus:
  "(m, g, rest) \<in> set (rx_match (Plus a) s) \<longleftrightarrow>
   g = [] \<and> m \<noteq> [] \<and> s = m @ rest \<and> (\<forall>c\<in>set m. atom_ok a c)"
proof (cases s)
  case Nil
  then show ?thesis by auto
next
  case (Cons c cs)
  show ?thesis
  proof (cases m)
    case Nil
    with Cons show ?thesis by (auto simp: in_star_match in_image_cons3)
  next
    case (Cons d m')
    with \<open>s = c # cs\<close> show ?thesis by (auto simp: in_star_match in_image_cons3)
  qed
qed

lemma re_search_Some:
  "re_search r s = Some (pre, m, g, rest) \<Longrightarrow>
   s = pre @ m @ rest \<and> (m, g, rest) \<in> set (rx_match r (m @ rest))"
proof (induction s arbitrary: pre)
  case Nil
  then show ?case
    using rx_match_decomp [of m g rest r "[]"]
    by (auto simp: re_search.simps [of r "[]"] split: list.splits)
next
  case (Cons c cs)
  show ?case
  proof (cases "rx_match r (c # cs)")
    case Nil
    with Cons.prems obtain pre' where
      "re_search r cs = Some (pre', m, g, rest)" "pre = c # pre'"
      by (auto simp: re_search.simps [of r "c # cs"])
    with Cons.IH show ?thesis by simp
  next
    case (Cons x xs)
    with Cons.prems have *: "(m, g, rest) \<in> set (rx_match r (c # cs))" "pre = []"
      by (auto simp: re_search.simps [of r "c # cs"])
    with rx_match_decomp [OF *(1)] show ?thesis by simp
  qed
qed

lemma re_search_None:
  "re_search r s = None \<longleftrightarrow> (\<forall>i\<le>length s. rx_match r (drop i s) = [])"
proof (induction s)
  case Nil
  then show ?case by (auto simp: re_search.simps [of r "[]"] split: list.splits)
next
  case (Cons c cs)
  have "(\<forall>i\<le>length (c # cs). rx_match r (drop i (c # cs)) = []) \<longleftrightarrow>
        rx_match r (c # cs) = [] \<and> (\<forall>i\<le>length cs. rx_match r (drop i cs) = [])"
    (is "?A \<longleftrightarrow> ?B")
  proof
    assume a: ?A
    then have "rx_match r (drop 0 (c # cs)) = []" by blast
    moreover have "rx_match r (drop i cs) = []" if "i \<le> length cs" for i
      using a that by (auto dest: spec [of _ "Suc i"])
    ultimately show ?B by simp
  next
    assume b: ?B
    show ?A
    proof (intro allI impI)
      fix i assume "i \<le> length (c # cs)"
      with b show "rx_match r (drop i (c # cs)) = []" by (cases i) auto
    qed
  qed
  with Cons.IH show ?case
    by (auto simp: re_search.simps [of r "c # cs"] split: list.splits)
qed

text \<open>Patterns without a group capture nothing; a group around one captures the match.\<close>

fun no_groups :: "rx \<Rightarrow> bool" where
  "no_groups (Seq r1 r2) = (no_groups r1 \<and> no_groups r2)"
| "no_groups (Alt r1 r2) = (no_groups r1 \<and> no_groups r2)"
| "no_groups (Grp r) = False"
| "no_groups _ = True"

lemma no_groups_match:
  "no_groups r \<Longrightarrow> (m, g, rest) \<in> set (rx_match r s) \<Longrightarrow> g = []"
proof (induction r arbitrary: m g rest s)
  case (Seq r1 r2)
  then show ?case by (fastforce simp: in_rx_match_Seq)
qed (auto split: list.splits if_splits)

lemma re_split_odd:
  assumes "\<And>s m g rest. (m, g, rest) \<in> set (rx_match r s) \<Longrightarrow> length g = 1"
  shows "odd (length (re_split r s))"
proof (induction "length s" arbitrary: s rule: less_induct)
  case less
  show ?case
  proof (cases "re_search r s")
    case None
    then show ?thesis by (simp add: re_split.simps [of r s])
  next
    case (Some a)
    then obtain pre m g rest where a: "re_search r s = Some (pre, m, g, rest)"
      by (cases a) auto
    note d = re_search_Some [OF a]
    then have g: "length g = 1" using assms by blast
    show ?thesis
    proof (cases "m = []")
      case True
      with a show ?thesis by (simp add: re_split.simps [of r s])
    next
      case False
      with d have "length rest < length s" by simp
      then have "odd (length (re_split r rest))" by (rule less)
      with a g False show ?thesis by (simp add: re_split.simps [of r s])
    qed
  qed
qed

lemmas in_rx_match =
  in_rx_match_Lit in_rx_match_One in_rx_match_Star in_rx_match_Plus in_rx_match_Opt
  in_rx_match_Seq in_rx_match_Alt in_rx_match_Grp

declare rx_match.simps [simp del]

lemma rx_match_Lit_Nil: "rx_match (Lit d) s = [] \<longleftrightarrow> \<not> prefix d s"
  by (simp add: rx_match.simps)

lemma re_search_leftmost:
  "re_search r s = Some (pre, m, g, rest) \<Longrightarrow> \<forall>i<length pre. rx_match r (drop i s) = []"
proof (induction s arbitrary: pre)
  case Nil
  then have "pre = []" using re_search_Some by fastforce
  then show ?case by simp
next
  case (Cons c cs)
  show ?case
  proof (cases "rx_match r (c # cs)")
    case Nil
    with Cons.prems obtain pre' where
      p: "re_search r cs = Some (pre', m, g, rest)" "pre = c # pre'"
      by (auto simp: re_search.simps [of r "c # cs"])
    show ?thesis
    proof (intro allI impI)
      fix i assume i: "i < length pre"
      show "rx_match r (drop i (c # cs)) = []"
      proof (cases i)
        case 0
        with Nil show ?thesis by simp
      next
        case (Suc j)
        with i p(2) have "j < length pre'" by simp
        with Cons.IH [OF p(1)] Suc show ?thesis by simp
      qed
    qed
  next
    case (Cons x xs)
    with Cons.prems have "pre = []"
      by (auto simp: re_search.simps [of r "c # cs"])
    then show ?thesis by simp
  qed
qed

lemma re_search_Lit_Some:
  assumes "re_search (Lit d) s = Some (pre, m, g, rest)"
  shows "m = d \<and> g = [] \<and> s = pre @ d @ rest \<and> (\<forall>i<length pre. \<not> prefix d (drop i s))"
proof -
  from re_search_Some [OF assms] have "s = pre @ m @ rest" "m = d" "g = []"
    by (auto simp: in_rx_match_Lit)
  moreover from re_search_leftmost [OF assms] have "\<forall>i<length pre. \<not> prefix d (drop i s)"
    by (simp add: rx_match_Lit_Nil)
  ultimately show ?thesis by simp
qed

lemma re_search_skip:
  assumes "\<forall>i<length pre. rx_match r (drop i (pre @ s)) = []"
    and "rx_match r s = (m, g, rest) # ys"
  shows "re_search r (pre @ s) = Some (pre, m, g, rest)"
  using assms
proof (induction pre)
  case Nil
  then show ?case by (simp add: re_search.simps [of r s])
next
  case (Cons c pre)
  from Cons.prems(1) have "rx_match r (drop 0 ((c # pre) @ s)) = []" by blast
  then have 0: "rx_match r (c # pre @ s) = []" by simp
  have "\<forall>i<length pre. rx_match r (drop i (pre @ s)) = []"
  proof (intro allI impI)
    fix i assume "i < length pre"
    then have "Suc i < length (c # pre)" by simp
    with Cons.prems(1) have "rx_match r (drop (Suc i) ((c # pre) @ s)) = []" by blast
    then show "rx_match r (drop i (pre @ s)) = []" by simp
  qed
  with Cons.IH Cons.prems(2) have "re_search r (pre @ s) = Some (pre, m, g, rest)" by simp
  with 0 show ?case by (simp add: re_search.simps [of r "c # pre @ s"])
qed

lemma finditer_Cons:
  assumes "finditer r s = (m, g) # xs"
  shows "\<exists>pre rest. s = pre @ m @ rest \<and> (m, g, rest) \<in> set (rx_match r (m @ rest))"
proof -
  from assms obtain pre rest where "re_search r s = Some (pre, m, g, rest)"
    by (auto simp: finditer.simps [of r s] split: option.splits if_splits)
  from re_search_Some [OF this] show ?thesis by blast
qed

lemma findall_Cons:
  assumes "findall r s = x # xs"
  shows "\<exists>pre m g rest. s = pre @ m @ rest \<and> (m, g, rest) \<in> set (rx_match r (m @ rest))
           \<and> x = (case g of [] \<Rightarrow> m | y # _ \<Rightarrow> y)"
proof -
  from assms obtain m g ys where "finditer r s = (m, g) # ys"
    "x = (case g of [] \<Rightarrow> m | y # _ \<Rightarrow> y)"
    by (auto simp: findall_def)
  with finditer_Cons [of r s m g ys] show ?thesis by blast
qed

text \<open>
  No pattern of the program matches the empty string, so the scans above always make
  progress on them.
\<close>

lemma patterns_nonempty:
  assumes "r \<in> {hours_rx, spaces_rx, student_id_rx, sex_rx, address_rx, semester_rx, plan_rx,
                grade_rx, year_rx, names_rx name_splitter, raw_grades_rx subj, course_num_rx subj}"
    and "(m, g, rest) \<in> set (rx_match r s)"
  shows "m \<noteq> []"
proof -
  have hours: "m \<noteq> []" if "(m, g, rest) \<in> set (rx_match hours_rx s)" for m g rest s
    using that unfolding hours_rx_def by (auto simp: in_rx_match)
  from assms(1) consider
      "r = hours_rx" | "r = spaces_rx" | "r = student_id_rx" | "r = sex_rx" | "r = address_rx"
    | "r = semester_rx" | "r = plan_rx" | "r = grade_rx" | "r = year_rx"
    | "r = names_rx name_splitter" | "r = raw_grades_rx subj" | "r = course_num_rx subj"
    by blast
  then show ?thesis
  proof cases
    case 1
    with assms(2) hours show ?thesis by blast
  next
    case 2
    with assms(2) show ?thesis unfolding spaces_rx_def by (auto simp: in_rx_match)
  next
    case 3
    with assms(2) show ?thesis unfolding student_id_rx_def by (auto simp: in_rx_match)
  next
    case 4
    with assms(2) show ?thesis unfolding sex_rx_def by (auto simp: in_rx_match)
  next
    case 5
    with assms(2) show ?thesis unfolding address_rx_def by (auto simp: in_rx_match)
  next
    case 6
    with assms(2) show ?thesis unfolding semester_rx_def by (auto simp: in_rx_match)
  next
    case 7
    with assms(2) show ?thesis unfolding plan_rx_def by (auto simp: in_rx_match)
  next
    case 8
    with assms(2) show ?thesis
      unfolding grade_rx_def by (auto simp: in_rx_match_Seq dest: hours)
  next
    case 9
    with assms(2) show ?thesis unfolding year_rx_def by (auto simp: in_rx_match)
  next
    case 10
    with assms(2) show ?thesis unfolding names_rx_def by (auto simp: in_rx_match)
  next
    case 11
    with assms(2) show ?thesis unfolding raw_grades_rx_def by (auto simp: in_rx_match_Seq in_rx_match_Lit)
  next
    case 12
    with assms(2) show ?thesis unfolding course_num_rx_def by (auto simp: in_rx_match_Seq in_rx_match_Lit)
  qed
qed

subsection \<open>Labelled lines\<close>

text \<open>
  Several patterns of the program are a label, a group \<^verbatim>\<open>(.*)\<close> and a newline. Such
  a pattern finds nothing in a text without the label, and where the label occurs it
  captures the rest of the line of its first occurrence.
\<close>

lemma star_match_longest:
  assumes "\<forall>c\<in>set v. atom_ok a c" and "x = [] \<or> \<not> atom_ok a (hd x)"
  shows "\<exists>ys. star_match a (v @ x) = (v, x) # ys"
  using assms
proof (induction v)
  case Nil
  then show ?case by (cases x) auto
next
  case (Cons c v)
  then obtain ys where "star_match a (v @ x) = (v, x) # ys" by auto
  with Cons.prems show ?case by simp
qed

lemma label_rx_match:
  assumes "newline \<notin> set v"
  shows "\<exists>ys. rx_match (seqs [Lit lbl, Grp (Star Dot), Lit [newline]]) (lbl @ v @ newline # post)
              = (lbl @ v @ [newline], [v], post) # ys"
proof -
  from assms have "\<forall>c\<in>set v. atom_ok Dot c" by auto
  then obtain ys where "star_match Dot (v @ newline # post) = (v, newline # post) # ys"
    using star_match_longest [of v Dot "newline # post"] by auto
  then show ?thesis
    by (simp add: rx_match.simps)
qed

lemma label_rx_no_match:
  assumes "\<not> prefix lbl s"
  shows "rx_match (seqs (Lit lbl # rs)) s = []"
  using assms by (cases rs) (simp_all add: rx_match.simps)

lemma findall_label_first:
  assumes "s = pre @ lbl @ v @ newline # post" and "newline \<notin> set v"
    and "\<forall>i<length pre. \<not> prefix lbl (drop i s)"
  shows "\<exists>vs. findall (seqs [Lit lbl, Grp (Star Dot), Lit [newline]]) s = v # vs"
proof -
  let ?r = "seqs [Lit lbl, Grp (Star Dot), Lit [newline]]"
  from label_rx_match [OF assms(2)] obtain ys where
    "rx_match ?r (lbl @ v @ newline # post) = (lbl @ v @ [newline], [v], post) # ys"
    by blast
  moreover have "\<forall>i<length pre. rx_match ?r (drop i (pre @ lbl @ v @ newline # post)) = []"
    using assms(1,3) label_rx_no_match [of lbl _ "[Grp (Star Dot), Lit [newline]]"]
    by blast
  ultimately have "re_search ?r s = Some (pre, lbl @ v @ [newline], [v], post)"
    unfolding assms(1) by (rule re_search_skip [rotated])
  then have "finditer ?r s = (lbl @ v @ [newline], [v]) # finditer ?r post"
    by (subst finditer.simps) simp
  then show ?thesis
    unfolding findall_def by simp
qed

lemma findall_label_absent:
  assumes "\<not> sublist lbl s"
  shows "findall (seqs (Lit lbl # rs)) s = []"
proof -
  have "rx_match (seqs (Lit lbl # rs)) (drop i s) = []" for i
  proof (rule label_rx_no_match)
    show "\<not> prefix lbl (drop i s)"
    proof
      assume "prefix lbl (drop i s)"
      then have "sublist lbl (drop i s)" by (rule prefix_imp_sublist)
      moreover have "sublist (drop i s) s" by (rule suffix_imp_sublist) (rule suffix_drop)
      ultimately have "sublist lbl s" by (rule sublist_order.order_trans)
      with assms show False by contradiction
    qed
  qed
  then have "re_search (seqs (Lit lbl # rs)) s = None" by (simp add: re_search_None)
  then have "finditer (seqs (Lit lbl # rs)) s = []"
    by (subst finditer.simps) simp
  then show ?thesis unfolding findall_def by simp
qed

lemma findall_groups_label_absent:
  assumes "\<not> sublist lbl s"
  shows "findall_groups (seqs (Lit lbl # rs)) s = []"
  using findall_label_absent [OF assms, of rs] by (simp add: findall_def findall_groups_def)

subsection \<open>Examples\<close>

text \<open>The abbreviations of the four seasons, and a label that no substitution matches.\<close>

lemma sem_abbr_examples:
  "sem_abbr ''Fall 2021'' = ''F21''"
  "sem_abbr ''Spring 2099'' = ''S99''"
  "sem_abbr ''Summer 2000'' = ''Sum00''"
  "sem_abbr ''Winter 2022'' = ''Win22''"
  "sem_abbr ''Fall 20xx'' = ''F20xx''"
  by code_simp+

lemma remove_extra_spaces_example:
  "remove_extra_spaces ''MTH  9   Calculus 4.00'' = ''MTH 9 Calculus 4.00''"
  by code_simp

section \<open>Loops, dictionaries and exceptions\<close>

lemma for_each_Inl:
  "for_each f xs st = Inl e \<Longrightarrow> \<exists>x\<in>set xs. \<exists>st'. f st' x = Inl e"
  by (induction xs arbitrary: st) (auto split: sum.splits)

lemma for_each_preserves:
  assumes "for_each f xs st = Inr st'" and "P st"
    and step: "\<And>s x s'. P s \<Longrightarrow> f s x = Inr s' \<Longrightarrow> P s'"
  shows "P st'"
  using assms(1,2)
  by (induction xs arbitrary: st) (auto split: sum.splits intro: step)

lemma for_each_append:
  "for_each f (xs @ ys) st =
     (case for_each f xs st of Inl e \<Rightarrow> Inl e | Inr st' \<Rightarrow> for_each f ys st')"
  by (induction xs arbitrary: st) (auto split: sum.splits)

lemma for_each_concat_map:
  "for_each f (concat (map h xs)) st = for_each (\<lambda>st x. for_each f (h x) st) xs st"
  by (induction xs arbitrary: st) (auto simp: for_each_append split: sum.splits)

lemma for_each_map:
  "for_each f (map h xs) st = for_each (\<lambda>st x. f st (h x)) xs st"
  by (induction xs arbitrary: st) (auto split: sum.splits)

lemma sequence_map_Inr: "sequence (map Inr ys) = Inr ys"
  by (induction ys) auto

lemma sequence_Inr: "sequence zs = Inr ys \<longleftrightarrow> zs = map Inr ys"
proof
  show "sequence zs = Inr ys \<Longrightarrow> zs = map Inr ys"
    by (induction zs arbitrary: ys) (auto split: sum.splits)
qed (simp add: sequence_map_Inr)

text \<open>The only exception of \<open>subj_summary\<close> is \<open>KeyError\<close>, and it returns unless
  the subject has no exclusion set or a counted course has no credits.\<close>

lemma sequence_map_Inl:
  "sequence (map f xs) = Inl e \<Longrightarrow> \<exists>x\<in>set xs. f x = Inl e"
  by (induction xs) (auto split: sum.splits)

lemma sequence_map_returns:
  "(\<exists>ys. sequence (map f xs) = Inr ys) \<longleftrightarrow> (\<forall>x\<in>set xs. \<exists>y. f x = Inr y)"
  by (induction xs) (auto split: sum.splits)

lemma getitem_Inr: "getitem d k = Inr v \<longleftrightarrow> map_of d k = Some v"
  by (auto simp: getitem_def split: option.splits)

lemma getitem_Inl: "getitem d k = Inl e \<longleftrightarrow> map_of d k = None \<and> e = KeyError"
  by (auto simp: getitem_def split: option.splits)

lemma map_of_keys: "map_of d k \<noteq> None \<longleftrightarrow> k \<in> set (keys d)"
  by (simp add: keys_def map_of_eq_None_iff)

lemma getitem_returns: "(\<exists>v. getitem d k = Inr v) \<longleftrightarrow> k \<in> set (keys d)"
  using map_of_keys [of d k] by (auto simp: getitem_def split: option.splits)

lemma all_less_list_all: "(\<forall>i<n. P i) \<longleftrightarrow> list_all P [0..<n]"
  by (auto simp: list_all_iff)

lemma num_of_py_sum: "num_of (py_sum xs) = sum_list xs"
  by (simp add: py_sum_def)

lemma py_float_Inl: "py_float s = Inl e \<Longrightarrow> e = ValueError"
  by (auto simp: py_float_def split: list.splits if_splits)

section \<open>Separating the students\<close>

text \<open>The positions of a text at which a delimiter occurs.\<close>

definition occurrence_positions :: "string \<Rightarrow> string \<Rightarrow> nat list" where
  "occurrence_positions delim text = filter (\<lambda>i. prefix delim (drop i text)) [0..<length text]"

lemma occurrence_positions_Cons:
  "occurrence_positions d (c # cs) =
     (if prefix d (c # cs) then [0] else []) @ map Suc (occurrence_positions d cs)"
proof -
  have "[0..<length (c # cs)] = 0 # map Suc [0..<length cs]"
    by (simp add: upt_conv_Cons map_Suc_upt del: upt_Suc)
  then show ?thesis
    by (simp add: occurrence_positions_def filter_map comp_def del: upt_Suc)
qed

lemma occurrence_positions_Nil: "occurrence_positions d [] = []"
  by (simp add: occurrence_positions_def)

lemma occurrences_skip:
  assumes "\<forall>i<length pre. \<not> prefix d (drop i (pre @ s))"
  shows "length (occurrence_positions d (pre @ s)) = length (occurrence_positions d s)"
  using assms
proof (induction pre)
  case Nil
  then show ?case by simp
next
  case (Cons c pre)
  from Cons.prems have "\<not> prefix d (drop 0 ((c # pre) @ s))" by blast
  then have 0: "\<not> prefix d (c # pre @ s)" by simp
  have "\<forall>i<length pre. \<not> prefix d (drop i (pre @ s))"
  proof (intro allI impI)
    fix i assume "i < length pre"
    then have "Suc i < length (c # pre)" by simp
    with Cons.prems have "\<not> prefix d (drop (Suc i) ((c # pre) @ s))" by blast
    then show "\<not> prefix d (drop i (pre @ s))" by simp
  qed
  with Cons.IH 0 show ?case by (simp add: occurrence_positions_Cons)
qed

lemma occurrences_Name:
  "length (occurrence_positions ''Name : '' (''Name : '' @ rest))
     = Suc (length (occurrence_positions ''Name : '' rest))"
  by (simp add: occurrence_positions_Cons)

lemma re_search_Lit_None:
  assumes "d \<noteq> []"
  shows "re_search (Lit d) s = None \<longleftrightarrow> occurrence_positions d s = []"
proof -
  have "\<not> prefix d (drop (length s) s)" using assms by simp
  then have "(\<forall>i\<le>length s. \<not> prefix d (drop i s)) \<longleftrightarrow> (\<forall>i<length s. \<not> prefix d (drop i s))"
    by (auto simp: le_less)
  then show ?thesis
    by (auto simp: re_search_None rx_match_Lit_Nil occurrence_positions_def filter_empty_conv)
qed

lemma split_Name_length:
  "length (re_split (Lit ''Name : '') s) = Suc (length (occurrence_positions ''Name : '' s))"
proof (induction "length s" arbitrary: s rule: less_induct)
  case less
  show ?case
  proof (cases "re_search (Lit ''Name : '') s")
    case None
    then have "occurrence_positions ''Name : '' s = []"
      using re_search_Lit_None [of "''Name : ''" s] by simp
    with None show ?thesis by (subst re_split.simps) simp
  next
    case (Some a)
    then obtain pre m g rest where a: "re_search (Lit ''Name : '') s = Some (pre, m, g, rest)"
      by (cases a) auto
    from re_search_Lit_Some [OF a] have
      d: "m = ''Name : ''" "g = []" "s = pre @ ''Name : '' @ rest"
         "\<forall>i<length pre. \<not> prefix ''Name : '' (drop i (pre @ ''Name : '' @ rest))"
      by auto
    from d(3) have "length rest < length s" by simp
    then have IH: "length (re_split (Lit ''Name : '') rest)
                   = Suc (length (occurrence_positions ''Name : '' rest))"
      by (rule less)
    have "re_split (Lit ''Name : '') s = pre # re_split (Lit ''Name : '') rest"
      using a d(1,2) by (subst re_split.simps) simp
    moreover have "length (occurrence_positions ''Name : '' s)
                   = Suc (length (occurrence_positions ''Name : '' rest))"
      unfolding d(3) using occurrences_skip [OF d(4)] occurrences_Name [of rest] by simp
    ultimately show ?thesis using IH by simp
  qed
qed

lemma split_Lit_concat:
  assumes "d \<noteq> []"
  shows "\<exists>p ps. re_split (Lit d) s = p # ps \<and> s = p @ concat (map (\<lambda>t. d @ t) ps)
           \<and> \<not> sublist d p"
proof (induction "length s" arbitrary: s rule: less_induct)
  case less
  show ?case
  proof (cases "re_search (Lit d) s")
    case None
    then have "\<forall>i\<le>length s. \<not> prefix d (drop i s)"
      by (simp add: re_search_None rx_match_Lit_Nil)
    have "\<not> sublist d s"
    proof
      assume "sublist d s"
      then obtain u w where s: "s = u @ d @ w" by (auto simp: sublist_def)
      then have "length u \<le> length s" by simp
      with \<open>\<forall>i\<le>length s. \<not> prefix d (drop i s)\<close> have "\<not> prefix d (drop (length u) s)"
        by blast
      with s show False by simp
    qed
    with None show ?thesis by (subst re_split.simps) simp
  next
    case (Some a)
    then obtain pre m g rest where a: "re_search (Lit d) s = Some (pre, m, g, rest)"
      by (cases a) auto
    from re_search_Lit_Some [OF a] have
      e: "m = d" "g = []" "s = pre @ d @ rest" "\<forall>i<length pre. \<not> prefix d (drop i s)"
      by auto
    from e(3) assms have "length rest < length s" by simp
    from less [OF this] obtain p ps where
      IH: "re_split (Lit d) rest = p # ps" "rest = p @ concat (map (\<lambda>t. d @ t) ps)"
      by blast
    have split: "re_split (Lit d) s = pre # p # ps"
      using a e(1,2) assms IH(1) by (subst re_split.simps) simp
    have "\<not> sublist d pre"
    proof
      assume "sublist d pre"
      then obtain u w where pre: "pre = u @ d @ w" by (auto simp: sublist_def)
      with assms have "length u < length pre" by (cases d) auto
      with e(4) have "\<not> prefix d (drop (length u) s)" by blast
      with e(3) pre show False by simp
    qed
    with split e(3) IH(2) show ?thesis by simp
  qed
qed

lemma split_Lit_pieces:
  assumes "d \<noteq> []"
  shows "\<forall>p\<in>set (re_split (Lit d) s). \<not> sublist d p"
proof (induction "length s" arbitrary: s rule: less_induct)
  case less
  show ?case
  proof (cases "re_search (Lit d) s")
    case None
    with split_Lit_concat [OF assms, of s] show ?thesis
      by (subst re_split.simps) (auto simp: re_split.simps [of "Lit d" s])
  next
    case (Some a)
    then obtain pre m g rest where a: "re_search (Lit d) s = Some (pre, m, g, rest)"
      by (cases a) auto
    from re_search_Lit_Some [OF a] have e: "m = d" "g = []" "s = pre @ d @ rest"
      by auto
    from e(3) assms have "length rest < length s" by simp
    from less [OF this] have IH: "\<forall>p\<in>set (re_split (Lit d) rest). \<not> sublist d p" .
    have split: "re_split (Lit d) s = pre # re_split (Lit d) rest"
      using a e(1,2) assms by (subst re_split.simps) simp
    with split_Lit_concat [OF assms, of s] have "\<not> sublist d pre" by auto
    with split IH show ?thesis by simp
  qed
qed

lemma no_sublist_no_occurrence:
  assumes "\<not> sublist d p"
  shows "occurrence_positions d p = []"
proof -
  have "\<not> prefix d (drop i p)" for i
  proof
    assume "prefix d (drop i p)"
    then have "sublist d (drop i p)" by (rule prefix_imp_sublist)
    moreover have "sublist (drop i p) p" by (rule suffix_imp_sublist) (rule suffix_drop)
    ultimately have "sublist d p" by (rule sublist_order.order_trans)
    with assms show False by contradiction
  qed
  then show ?thesis by (simp add: occurrence_positions_def)
qed

lemma block_one_occurrence:
  assumes "\<not> sublist ''Name : '' p"
  shows "occurrence_positions ''Name : '' (''Name : '' @ p) = [0]"
  using no_sublist_no_occurrence [OF assms]
  by (simp add: occurrence_positions_Cons)

text \<open>
  C9. With the default delimiter, \<open>separate_students\<close> returns one block for each
  occurrence of \<open>Name : \<close> in the text. Each block begins with the delimiter and has no
  other occurrence of it; the blocks, in order, are the text from its first occurrence
  on, so what precedes the first occurrence is discarded. A text without the delimiter
  gives the empty list. With \<^verbatim>\<open>name_ret=True\<close> the blocks are the same.
\<close>

theorem separate_students_blocks:
  "\<exists>blocks. separate_students text ''Name : '' False = Transcripts blocks
     \<and> length blocks = length (occurrence_positions ''Name : '' text)
     \<and> (\<forall>b\<in>set blocks. prefix ''Name : '' b \<and> occurrence_positions ''Name : '' b = [0])
     \<and> (\<exists>preamble. text = preamble @ concat blocks \<and> \<not> sublist ''Name : '' preamble)
     \<and> (occurrence_positions ''Name : '' text = [] \<longrightarrow> blocks = [])
     \<and> (\<exists>names. separate_students text ''Name : '' True = TranscriptsNames blocks names)"
proof -
  let ?d = "''Name : ''"
  have d: "?d \<noteq> []" by simp
  from split_Lit_concat [OF d, of "text"] obtain p ps where
    s: "re_split (Lit ?d) text = p # ps" "text = p @ concat (map (\<lambda>t. ?d @ t) ps)"
       "\<not> sublist ?d p"
    by blast
  let ?blocks = "map (\<lambda>t. ?d @ t) ps"
  have 1: "separate_students text ?d False = Transcripts ?blocks"
    by (simp add: separate_students_def s(1))
  have 2: "length ?blocks = length (occurrence_positions ?d text)"
    using split_Name_length [of "text"] s(1) by simp
  have "\<forall>t\<in>set ps. \<not> sublist ?d t"
    using split_Lit_pieces [OF d, of "text"] s(1) by simp
  then have 3: "\<forall>b\<in>set ?blocks. prefix ?d b \<and> occurrence_positions ?d b = [0]"
    using block_one_occurrence by auto
  have 4: "\<exists>preamble. text = preamble @ concat ?blocks \<and> \<not> sublist ?d preamble"
    using s(2,3) by blast
  have 5: "occurrence_positions ?d text = [] \<longrightarrow> ?blocks = []"
    using 2 by auto
  have 6: "\<exists>names. separate_students text ?d True = TranscriptsNames ?blocks names"
    by (simp add: separate_students_def s(1))
  from 1 2 3 4 5 6 show ?thesis by blast
qed

theorem separate_students_blocks_witness:
  "separate_students ''Page 1\<newline>Name : Ann Lee\<newline>Sex : F\<newline>Name : Bob Ray\<newline>Sex : M\<newline>''
     ''Name : '' False
     = Transcripts [''Name : Ann Lee\<newline>Sex : F\<newline>'', ''Name : Bob Ray\<newline>Sex : M\<newline>'']
   \<and> occurrence_positions ''Name : ''
       ''Page 1\<newline>Name : Ann Lee\<newline>Sex : F\<newline>Name : Bob Ray\<newline>Sex : M\<newline>'' = [7, 30]
   \<and> occurrence_positions ''Name : '' ''Name : Ann Lee\<newline>Sex : F\<newline>'' = [0]
   \<and> occurrence_positions ''Name : '' ''Page 1 of 1\<newline>'' = []
   \<and> separate_students ''Page 1 of 1\<newline>'' ''Name : '' False = Transcripts []"
proof -
  have a: "separate_students ''Page 1\<newline>Name : Ann Lee\<newline>Sex : F\<newline>Name : Bob Ray\<newline>Sex : M\<newline>''
     ''Name : '' False
     = Transcripts [''Name : Ann Lee\<newline>Sex : F\<newline>'', ''Name : Bob Ray\<newline>Sex : M\<newline>'']"
    by code_simp
  have b: "occurrence_positions ''Name : ''
       ''Page 1\<newline>Name : Ann Lee\<newline>Sex : F\<newline>Name : Bob Ray\<newline>Sex : M\<newline>'' = [7, 30]"
    by code_simp
  have c: "occurrence_positions ''Name : '' ''Page 1 of 1\<newline>'' = []"
    by code_simp
  from a separate_students_blocks
         [of "''Page 1\<newline>Name : Ann Lee\<newline>Sex : F\<newline>Name : Bob Ray\<newline>Sex : M\<newline>''"]
  have d: "occurrence_positions ''Name : '' ''Name : Ann Lee\<newline>Sex : F\<newline>'' = [0]"
    by auto
  from c separate_students_blocks [of "''Page 1 of 1\<newline>''"]
  have e: "separate_students ''Page 1 of 1\<newline>'' ''Name : '' False = Transcripts []"
    by auto
  from a b c d e show ?thesis by blast
qed

section \<open>Personal information\<close>

lemma personal_info_Inl: "personal_info transcript = Inl e \<Longrightarrow> e = IndexError"
  by (auto simp: personal_info_def split: list.splits sum.splits)

text \<open>
  C5. \<open>personal_info\<close> raises \<open>IndexError\<close> when the label of the name, of the student
  ID or of the sex does not occur in the block, and it raises nothing else. When these
  three patterns match and the address pattern does not (in particular when the label
  \<open>Address : \<close> does not occur), it returns the three identity fields and the empty
  string in each of the three address fields.
\<close>

theorem personal_info_fields:
  "(\<not> sublist ''Name : '' transcript \<or> \<not> sublist ''Student ID: '' transcript
      \<or> \<not> sublist ''Sex : '' transcript
      \<longrightarrow> personal_info transcript = Inl IndexError)
   \<and> (personal_info transcript = Inl e \<longrightarrow> e = IndexError)
   \<and> (findall (names_rx ''Name : '') transcript = name # names
      \<and> findall student_id_rx transcript = student_id # ids
      \<and> findall sex_rx transcript = sex # sexes
      \<and> (findall_groups address_rx transcript = [] \<or> \<not> sublist ''Address : '' transcript)
      \<longrightarrow> personal_info transcript =
            Inr [(''Name'', PyStr name), (''Student_ID'', PyStr student_id), (''Sex'', PyStr sex),
                 (''Address1'', PyStr []), (''Address2'', PyStr []), (''Address3'', PyStr [])])"
proof -
  have 1: "personal_info transcript = Inl IndexError" if "\<not> sublist ''Name : '' transcript"
    using findall_label_absent [OF that, of "[Grp (Star Dot), Lit [newline]]"]
    by (simp add: personal_info_def names_rx_def)
  have 2: "personal_info transcript = Inl IndexError" if "\<not> sublist ''Student ID: '' transcript"
    using findall_label_absent [OF that, of "[Grp (Star Dot), Lit [newline]]"]
    by (simp add: personal_info_def student_id_rx_def split: list.splits)
  have 3: "personal_info transcript = Inl IndexError" if "\<not> sublist ''Sex : '' transcript"
    using findall_label_absent [OF that, of "[Grp (Star Dot), Lit [newline]]"]
    by (simp add: personal_info_def sex_rx_def split: list.splits)
  have 4: "findall_groups address_rx transcript = []" if "\<not> sublist ''Address : '' transcript"
    using findall_groups_label_absent [OF that] unfolding address_rx_def by blast
  have 5: "personal_info transcript =
            Inr [(''Name'', PyStr name), (''Student_ID'', PyStr student_id), (''Sex'', PyStr sex),
                 (''Address1'', PyStr []), (''Address2'', PyStr []), (''Address3'', PyStr [])]"
    if "findall (names_rx ''Name : '') transcript = name # names"
       "findall student_id_rx transcript = student_id # ids"
       "findall sex_rx transcript = sex # sexes"
       "findall_groups address_rx transcript = []"
    using that by (simp add: personal_info_def)
  from 1 2 3 4 5 personal_info_Inl show ?thesis by blast
qed

theorem personal_info_fields_witness:
  "\<not> sublist ''Sex : '' ''Name : Ann Lee\<newline>Student ID: 100\<newline>''
   \<and> personal_info ''Name : Ann Lee\<newline>Student ID: 100\<newline>'' = Inl IndexError
   \<and> findall (names_rx ''Name : '') ''Name : Ann Lee\<newline>Student ID: 100\<newline>Sex : F\<newline>Plan : Math BS\<newline>''
       = [''Ann Lee'']
   \<and> findall student_id_rx ''Name : Ann Lee\<newline>Student ID: 100\<newline>Sex : F\<newline>Plan : Math BS\<newline>''
       = [''100'']
   \<and> findall sex_rx ''Name : Ann Lee\<newline>Student ID: 100\<newline>Sex : F\<newline>Plan : Math BS\<newline>''
       = [''F'']
   \<and> findall_groups address_rx ''Name : Ann Lee\<newline>Student ID: 100\<newline>Sex : F\<newline>Plan : Math BS\<newline>''
       = []
   \<and> personal_info ''Name : Ann Lee\<newline>Student ID: 100\<newline>Sex : F\<newline>Plan : Math BS\<newline>''
       = Inr [(''Name'', PyStr ''Ann Lee''), (''Student_ID'', PyStr ''100''), (''Sex'', PyStr ''F''),
              (''Address1'', PyStr []), (''Address2'', PyStr []), (''Address3'', PyStr [])]"
proof -
  have a: "\<not> sublist ''Sex : '' ''Name : Ann Lee\<newline>Student ID: 100\<newline>''"
    by code_simp
  have b: "findall (names_rx ''Name : '') ''Name : Ann Lee\<newline>Student ID: 100\<newline>Sex : F\<newline>Plan : Math BS\<newline>''
       = [''Ann Lee'']"
    by code_simp
  have c: "findall student_id_rx ''Name : Ann Lee\<newline>Student ID: 100\<newline>Sex : F\<newline>Plan : Math BS\<newline>''
       = [''100'']"
    by code_simp
  have d: "findall sex_rx ''Name : Ann Lee\<newline>Student ID: 100\<newline>Sex : F\<newline>Plan : Math BS\<newline>''
       = [''F'']"
    by code_simp
  have e: "findall_groups address_rx ''Name : Ann Lee\<newline>Student ID: 100\<newline>Sex : F\<newline>Plan : Math BS\<newline>''
       = []"
    by code_simp
  from a personal_info_fields [of "''Name : Ann Lee\<newline>Student ID: 100\<newline>''"]
  have "personal_info ''Name : Ann Lee\<newline>Student ID: 100\<newline>'' = Inl IndexError"
    by blast
  moreover from b c d e
    personal_info_fields [of "''Name : Ann Lee\<newline>Student ID: 100\<newline>Sex : F\<newline>Plan : Math BS\<newline>''"
      _ "''Ann Lee''" "[]" "''100''" "[]" "''F''" "[]"]
  have "personal_info ''Name : Ann Lee\<newline>Student ID: 100\<newline>Sex : F\<newline>Plan : Math BS\<newline>''
       = Inr [(''Name'', PyStr ''Ann Lee''), (''Student_ID'', PyStr ''100''), (''Sex'', PyStr ''F''),
              (''Address1'', PyStr []), (''Address2'', PyStr []), (''Address3'', PyStr [])]"
    by blast
  ultimately show ?thesis using a b c d e by blast
qed

section \<open>Semester segmentation\<close>

text \<open>
  A semester header, as the specification describes it: one of the four season names, a
  space and a four-digit year that begins with \<open>20\<close>. \<open>year_headers\<close> are the positions
  of a block at which one begins.
\<close>

definition year_header_at :: "string \<Rightarrow> bool" where
  "year_header_at s =
     list_ex (\<lambda>season. prefix (season @ '' 20'') s \<and>
                (case drop (length season + 3) s of
                   a # b # _ \<Rightarrow> is_digit a \<and> is_digit b
                 | _ \<Rightarrow> False))
       [''Fall'', ''Spring'', ''Summer'', ''Winter'']"

definition year_headers :: "string \<Rightarrow> nat list" where
  "year_headers block = filter (\<lambda>i. year_header_at (drop i block)) [0..<length block]"

text \<open>
  What the pattern of the program accepts after \<open>20\<close> is any two characters of the same
  line, digits or not. \<open>pattern_positions\<close> are the positions of a block at which a
  season name, a space, \<open>20\<close> and two such characters begin.
\<close>

definition semester_pattern_at :: "string \<Rightarrow> bool" where
  "semester_pattern_at s =
     list_ex (\<lambda>season. prefix (season @ '' 20'') s \<and>
                (case drop (length season + 3) s of
                   a # b # _ \<Rightarrow> a \<noteq> newline \<and> b \<noteq> newline
                 | _ \<Rightarrow> False))
       [''Fall'', ''Spring'', ''Summer'', ''Winter'']"

definition pattern_positions :: "string \<Rightarrow> nat list" where
  "pattern_positions block = filter (\<lambda>i. semester_pattern_at (drop i block)) [0..<length block]"

lemma semester_rx_groups:
  "(m, g, rest) \<in> set (rx_match semester_rx s) \<Longrightarrow> length g = 1"
  unfolding semester_rx_def
  by (auto simp: in_rx_match_Grp dest!: no_groups_match [rotated])

lemma line_step_Inl:
  "line_step subj semester st line = Inl e \<Longrightarrow> e = IndexError \<or> e = ValueError"
  by (auto simp: line_step_def course_of_def
           split: prod.splits sum.splits list.splits if_splits dest: py_float_Inl)

lemma semester_step_Inl:
  "semester_step semester_split subj st i = Inl e \<Longrightarrow> e = IndexError \<or> e = ValueError"
  by (auto simp: semester_step_def Let_def dest!: for_each_Inl dest: line_step_Inl)

lemma digit_not_newline: "is_digit c \<Longrightarrow> c \<noteq> newline"
  by (auto simp: is_digit_def newline_def)

lemma year_header_pattern: "year_header_at s \<Longrightarrow> semester_pattern_at s"
  unfolding year_header_at_def semester_pattern_at_def
  by (auto split: list.splits dest: digit_not_newline)

lemma semester_rx_pattern:
  assumes "rx_match semester_rx s \<noteq> []"
  shows "semester_pattern_at s"
proof -
  from assms obtain m g rest where "(m, g, rest) \<in> set (rx_match semester_rx s)"
    by (cases "rx_match semester_rx s") auto
  then show ?thesis
    unfolding semester_rx_def semester_pattern_at_def
    by (auto simp: in_rx_match)
qed

lemma season_match:
  assumes "prefix l s" and "drop (length l) s = a # b # r" and "a \<noteq> newline" "b \<noteq> newline"
  shows "(l @ [a, b], [], r) \<in> set (rx_match (seqs [Lit l, One Dot, One Dot]) s)"
proof -
  from assms(1) obtain t where "s = l @ t" by (auto simp: prefix_def)
  with assms(2) have "s = l @ a # b # r" by simp
  with assms(3,4) show ?thesis by (simp add: in_rx_match)
qed

lemma pattern_semester_rx:
  assumes "semester_pattern_at s"
  shows "rx_match semester_rx s \<noteq> []"
proof -
  have one: "\<exists>m r. (m, [], r) \<in> set (rx_match (seqs [Lit l, One Dot, One Dot]) s)"
    if "prefix l s" and "length l = n"
      and "case drop n s of a # b # _ \<Rightarrow> a \<noteq> newline \<and> b \<noteq> newline | _ \<Rightarrow> False"
    for l n
  proof -
    from that(2,3) obtain a b r where "drop (length l) s = a # b # r" "a \<noteq> newline" "b \<noteq> newline"
      by (cases "drop n s"; cases "tl (drop n s)") auto
    from season_match [OF that(1) this] show ?thesis by blast
  qed
  have f: "\<exists>m r. (m, [], r) \<in> set (rx_match (seqs [Lit ''Fall 20'', One Dot, One Dot]) s)"
    if "prefix ''Fall 20'' s"
      and "case drop 7 s of a # b # _ \<Rightarrow> a \<noteq> newline \<and> b \<noteq> newline | _ \<Rightarrow> False"
    using one [OF that(1) _ that(2)] by simp
  have g: "\<exists>m r. (m, [], r) \<in> set (rx_match (seqs [Lit l, One Dot, One Dot]) s)"
    if "l \<in> {''Spring 20'', ''Summer 20'', ''Winter 20''}" and "prefix l s"
      and "case drop 9 s of a # b # _ \<Rightarrow> a \<noteq> newline \<and> b \<noteq> newline | _ \<Rightarrow> False"
    for l
    using one [OF that(2) _ that(3)] that(1) by auto
  from assms have "\<exists>m r. (m, [m], r) \<in> set (rx_match semester_rx s)"
    unfolding semester_pattern_at_def semester_rx_def
    using f g [of "''Spring 20''"] g [of "''Summer 20''"] g [of "''Winter 20''"]
    by (simp add: in_rx_match_Grp in_rx_match_Alt) blast
  then show ?thesis by auto
qed

lemma no_pattern_no_match:
  "re_search semester_rx block = None \<longleftrightarrow> pattern_positions block = []"
proof -
  have nil: "rx_match semester_rx [] = []" by code_simp
  have "(\<forall>i\<le>length block. rx_match semester_rx (drop i block) = [])
        \<longleftrightarrow> (\<forall>i<length block. \<not> semester_pattern_at (drop i block))"
    (is "?A \<longleftrightarrow> ?B")
  proof
    assume a: ?A
    show ?B
    proof (intro allI impI)
      fix i assume "i < length block"
      with a have "rx_match semester_rx (drop i block) = []" by simp
      then show "\<not> semester_pattern_at (drop i block)" using pattern_semester_rx by blast
    qed
  next
    assume b: ?B
    show ?A
    proof (intro allI impI)
      fix i assume i: "i \<le> length block"
      show "rx_match semester_rx (drop i block) = []"
      proof (cases "i < length block")
        case True
        with b show ?thesis using semester_rx_pattern by blast
      next
        case False
        with i have "drop i block = []" by simp
        with nil show ?thesis by simp
      qed
    qed
  qed
  then show ?thesis
    by (auto simp: re_search_None pattern_positions_def filter_empty_conv)
qed

lemma semester_split_single:
  "re_split semester_rx block = [block] \<longleftrightarrow> re_search semester_rx block = None"
proof (cases "re_search semester_rx block")
  case None
  then show ?thesis by (simp add: re_split.simps [of semester_rx block])
next
  case (Some a)
  then obtain pre m g rest where a: "re_search semester_rx block = Some (pre, m, g, rest)"
    by (cases a) auto
  from re_search_Some [OF a] have "(m, g, rest) \<in> set (rx_match semester_rx (m @ rest))"
    by simp
  then have "m \<noteq> []" using patterns_nonempty [of semester_rx] by blast
  with a have "re_split semester_rx block = pre # g @ re_split semester_rx rest"
    by (simp add: re_split.simps [of semester_rx block])
  moreover have "re_split semester_rx rest \<noteq> []"
    by (subst re_split.simps) (auto split: option.splits)
  ultimately have "length (re_split semester_rx block) \<ge> 2"
    by (cases "re_split semester_rx rest") auto
  with a show ?thesis by auto
qed

text \<open>
  C4, as the code has it. Splitting a block by the semester-header pattern yields an odd
  number of segments. It yields the block alone exactly when the pattern (a season name,
  a space, \<open>20\<close> and any two characters of the same line) occurs nowhere in the block;
  every header with a year is such an occurrence. \<open>grades_of_subj\<close> raises the
  structural error exactly when the number of segments is even, which never happens.
\<close>

theorem semester_split_segments:
  "odd (length (re_split semester_rx block))
   \<and> (pattern_positions block = [] \<longleftrightarrow> re_split semester_rx block = [block])
   \<and> set (year_headers block) \<subseteq> set (pattern_positions block)
   \<and> (grades_of_subj block subj creds = Inl StructuralError
        \<longleftrightarrow> even (length (re_split semester_rx block)))
   \<and> grades_of_subj block subj creds \<noteq> Inl StructuralError"
proof -
  have odd: "odd (length (re_split semester_rx block))"
    by (rule re_split_odd) (rule semester_rx_groups)
  have one: "pattern_positions block = [] \<longleftrightarrow> re_split semester_rx block = [block]"
    by (simp add: semester_split_single no_pattern_no_match)
  have sub: "set (year_headers block) \<subseteq> set (pattern_positions block)"
    by (auto simp: year_headers_def pattern_positions_def dest: year_header_pattern)
  have never: "grades_of_subj block subj creds \<noteq> Inl StructuralError"
  proof
    assume a: "grades_of_subj block subj creds = Inl StructuralError"
    from odd have "length (re_split semester_rx block) mod 2 = 1"
      by (simp add: odd_iff_mod_2_eq_one)
    with a show False
      by (auto simp: grades_of_subj_def Let_def dest!: for_each_Inl dest: semester_step_Inl)
  qed
  from odd one sub never show ?thesis by simp
qed

theorem semester_split_segments_witness:
  "pattern_positions ''Name : Ann Lee\<newline>Plan : Math BS\<newline>'' = []
   \<and> re_split semester_rx ''Name : Ann Lee\<newline>Plan : Math BS\<newline>''
       = [''Name : Ann Lee\<newline>Plan : Math BS\<newline>'']
   \<and> year_headers ''Name : Ann Lee\<newline>Fall 2020\<newline>MTH 9 Calculus 4.00 4.00 A\<newline>'' = [15]
   \<and> pattern_positions ''Name : Ann Lee\<newline>Fall 2020\<newline>MTH 9 Calculus 4.00 4.00 A\<newline>'' = [15]
   \<and> re_split semester_rx ''Name : Ann Lee\<newline>Fall 2020\<newline>MTH 9 Calculus 4.00 4.00 A\<newline>''
       = [''Name : Ann Lee\<newline>'', ''Fall 2020'', ''\<newline>MTH 9 Calculus 4.00 4.00 A\<newline>'']
   \<and> grades_of_subj ''Name : Ann Lee\<newline>Fall 2020\<newline>MTH 9 Calculus 4.00 4.00 A\<newline>'' ''MTH'' []
       = Inr ([(''MTH 9'', ''A'')], [(''MTH 9'', 4)])"
proof -
  have a: "pattern_positions ''Name : Ann Lee\<newline>Plan : Math BS\<newline>'' = []"
    by code_simp
  have b: "year_headers ''Name : Ann Lee\<newline>Fall 2020\<newline>MTH 9 Calculus 4.00 4.00 A\<newline>'' = [15]"
    by code_simp
  have c: "pattern_positions ''Name : Ann Lee\<newline>Fall 2020\<newline>MTH 9 Calculus 4.00 4.00 A\<newline>'' = [15]"
    by code_simp
  have d: "re_split semester_rx ''Name : Ann Lee\<newline>Fall 2020\<newline>MTH 9 Calculus 4.00 4.00 A\<newline>''
       = [''Name : Ann Lee\<newline>'', ''Fall 2020'', ''\<newline>MTH 9 Calculus 4.00 4.00 A\<newline>'']"
    by code_simp
  have e: "grades_of_subj ''Name : Ann Lee\<newline>Fall 2020\<newline>MTH 9 Calculus 4.00 4.00 A\<newline>'' ''MTH'' []
       = Inr ([(''MTH 9'', ''A'')], [(''MTH 9'', 4)])"
    by code_simp
  from a semester_split_segments [of "''Name : Ann Lee\<newline>Plan : Math BS\<newline>''" "''MTH''" "[]"]
  have "re_split semester_rx ''Name : Ann Lee\<newline>Plan : Math BS\<newline>''
       = [''Name : Ann Lee\<newline>Plan : Math BS\<newline>'']"
    by blast
  with a b c d e show ?thesis by blast
qed

text \<open>
  C4 as stated counts headers with a year. The block below has no season name followed
  by a year, and the pattern still splits it at \<open>Fall 20xx\<close> into three segments.
\<close>

theorem semester_split_year_counterexample:
  "year_headers ''Name : Ann Lee\<newline>Fall 20xx\<newline>MTH 9 Calculus 4.00 4.00 A\<newline>'' = []
   \<and> re_split semester_rx ''Name : Ann Lee\<newline>Fall 20xx\<newline>MTH 9 Calculus 4.00 4.00 A\<newline>''
       = [''Name : Ann Lee\<newline>'', ''Fall 20xx'', ''\<newline>MTH 9 Calculus 4.00 4.00 A\<newline>'']
   \<and> length (re_split semester_rx
        ''Name : Ann Lee\<newline>Fall 20xx\<newline>MTH 9 Calculus 4.00 4.00 A\<newline>'') = 3"
  by code_simp

section \<open>The grade of a course line\<close>

text \<open>
  The tokens of the specification: a decimal-hour token is a digit, a dot and two digits;
  a grade token, as the pattern of the program admits it, is an upper-case letter, then
  an optional \<open>+\<close>, then an optional \<open>-\<close>.
\<close>

definition hours_token :: "string \<Rightarrow> bool" where
  "hours_token h =
     (case h of
        [a, p, b, c] \<Rightarrow> is_digit a \<and> p = CHR ''.'' \<and> is_digit b \<and> is_digit c
      | _ \<Rightarrow> False)"

definition grade_token :: "string \<Rightarrow> bool" where
  "grade_token g =
     (case g of
        [] \<Rightarrow> False
      | letter # sign \<Rightarrow>
          CHR ''A'' \<le> letter \<and> letter \<le> CHR ''Z'' \<and> sign \<in> set [[], ''+'', ''-'', ''+-''])"

lemma hours_rx_match:
  "(m, g, rest) \<in> set (rx_match hours_rx s) \<Longrightarrow> hours_token m \<and> g = [] \<and> s = m @ rest"
  unfolding hours_rx_def
  by (auto simp: in_rx_match hours_token_def digit_def is_digit_def)

lemma grade_rx_match:
  assumes "(m, g, rest) \<in> set (rx_match grade_rx s)"
  shows "\<exists>h1 h2 t. hours_token h1 \<and> hours_token h2 \<and> grade_token t
           \<and> m = h1 @ '' '' @ h2 @ '' '' @ t \<and> g = [t]"
proof -
  from assms obtain m1 g1 s1 m2 g2 s2 m3 g3 where
    h1: "(m1, g1, s1) \<in> set (rx_match hours_rx s)" and
    h2: "(m2, g2, s2) \<in> set (rx_match hours_rx (drop 1 s1))" and
    t: "(m3, g3, rest) \<in> set (rx_match (Grp (seqs [One upper, Opt (Chr CHR ''+''),
          Opt (Chr CHR ''-'')])) (drop 1 s2))" and
    m: "m = m1 @ '' '' @ m2 @ '' '' @ m3" "g = g1 @ g2 @ g3"
    unfolding grade_rx_def
    by (auto simp: in_rx_match_Seq in_rx_match_Lit)
  from t have "grade_token m3 \<and> g3 = [m3]"
    by (auto simp: in_rx_match grade_token_def upper_def)
  with h1 h2 m show ?thesis
    by (auto dest!: hours_rx_match)
qed

text \<open>
  C7, as the code has it. For every course line that \<open>line_step\<close> processes, the value
  stored for the course is the grade of the line: when the grade pattern matches, a token
  of one to three characters (an upper-case letter, then an optional \<open>+\<close>, then an
  optional \<open>-\<close>) that follows two decimal-hour tokens, each followed by a space; when it
  does not match, the abbreviated label of the enclosing semester.
\<close>

theorem line_step_grade:
  assumes "line_step subj semester (grades, creds) line = Inr (grades', creds')"
  shows "\<exists>course. course_of subj line = Inr course
           \<and> grades' = AList.update course (grade_of semester line) grades
           \<and> (findall grade_rx line = [] \<longrightarrow> grade_of semester line = sem_abbr semester)
           \<and> (findall grade_rx line \<noteq> [] \<longrightarrow>
                grade_token (grade_of semester line)
                \<and> 1 \<le> length (grade_of semester line) \<and> length (grade_of semester line) \<le> 3
                \<and> (\<exists>pre h1 h2 post. hours_token h1 \<and> hours_token h2
                     \<and> line = pre @ h1 @ '' '' @ h2 @ '' '' @ grade_of semester line @ post))"
proof -
  from assms obtain course where
    c: "course_of subj line = Inr course"
       "grades' = AList.update course (grade_of semester line) grades"
    by (auto simp: line_step_def split: sum.splits)
  have none: "grade_of semester line = sem_abbr semester" if "findall grade_rx line = []"
    using that by (simp add: grade_of_def)
  have some: "grade_token (grade_of semester line)
              \<and> 1 \<le> length (grade_of semester line) \<and> length (grade_of semester line) \<le> 3
              \<and> (\<exists>pre h1 h2 post. hours_token h1 \<and> hours_token h2
                   \<and> line = pre @ h1 @ '' '' @ h2 @ '' '' @ grade_of semester line @ post)"
    if "findall grade_rx line \<noteq> []"
  proof -
    from that obtain x xs where x: "findall grade_rx line = x # xs"
      by (cases "findall grade_rx line") auto
    then have gr: "grade_of semester line = x" by (simp add: grade_of_def)
    from findall_Cons [OF x] obtain pre m g rest where
      d: "line = pre @ m @ rest" "(m, g, rest) \<in> set (rx_match grade_rx (m @ rest))"
         "x = (case g of [] \<Rightarrow> m | y # _ \<Rightarrow> y)"
      by blast
    from grade_rx_match [OF d(2)] obtain h1 h2 t where
      t: "hours_token h1" "hours_token h2" "grade_token t"
         "m = h1 @ '' '' @ h2 @ '' '' @ t" "g = [t]"
      by blast
    with d gr have gt: "grade_of semester line = t" by simp
    from t(3) have len: "1 \<le> length t" "length t \<le> 3"
      by (auto simp: grade_token_def split: list.splits)
    have "line = pre @ h1 @ '' '' @ h2 @ '' '' @ t @ rest"
      using d(1) t(4) by simp
    with t(1,2,3) len show ?thesis
      unfolding gt
      by (intro conjI exI [of _ pre] exI [of _ h1] exI [of _ h2] exI [of _ rest])
  qed
  from c none some show ?thesis by blast
qed

theorem line_step_grade_witness:
  "line_step ''MTH'' ''Spring 2021'' ([], []) ''MTH 9 Calculus 4.00 4.00 B+\<newline>''
     = Inr ([(''MTH 9'', ''B+'')], [(''MTH 9'', 4)])
   \<and> findall grade_rx ''MTH 9 Calculus 4.00 4.00 B+\<newline>'' = [''B+'']
   \<and> grade_of ''Spring 2021'' ''MTH 9 Calculus 4.00 4.00 B+\<newline>'' = ''B+''
   \<and> grade_token ''B+''
   \<and> line_step ''MTH'' ''Spring 2021'' ([], []) ''MTH 22 Algebra 3.00\<newline>''
     = Inr ([(''MTH 22'', ''S21'')], [(''MTH 22'', 3)])
   \<and> findall grade_rx ''MTH 22 Algebra 3.00\<newline>'' = []
   \<and> grade_of ''Spring 2021'' ''MTH 22 Algebra 3.00\<newline>'' = sem_abbr ''Spring 2021''
   \<and> sem_abbr ''Spring 2021'' = ''S21''"
proof -
  have a: "line_step ''MTH'' ''Spring 2021'' ([], []) ''MTH 9 Calculus 4.00 4.00 B+\<newline>''
     = Inr ([(''MTH 9'', ''B+'')], [(''MTH 9'', 4)])"
    by code_simp
  have b: "findall grade_rx ''MTH 9 Calculus 4.00 4.00 B+\<newline>'' = [''B+'']"
    by code_simp
  have c: "grade_of ''Spring 2021'' ''MTH 9 Calculus 4.00 4.00 B+\<newline>'' = ''B+''"
    by code_simp
  have d: "line_step ''MTH'' ''Spring 2021'' ([], []) ''MTH 22 Algebra 3.00\<newline>''
     = Inr ([(''MTH 22'', ''S21'')], [(''MTH 22'', 3)])"
    by code_simp
  have e: "findall grade_rx ''MTH 22 Algebra 3.00\<newline>'' = []"
    by code_simp
  have f: "sem_abbr ''Spring 2021'' = ''S21''"
    by code_simp
  from line_step_grade [OF a] b c have "grade_token ''B+''"
    by auto
  moreover from line_step_grade [OF d] e
  have "grade_of ''Spring 2021'' ''MTH 22 Algebra 3.00\<newline>'' = sem_abbr ''Spring 2021''"
    by auto
  ultimately show ?thesis using a b c d e f by blast
qed

text \<open>
  C7 as stated bounds the grade token by two characters, with \<open>+\<close> or \<open>-\<close> but never
  both. The pattern \<^verbatim>\<open>[A-Z]\+?\-?\<close> takes both: the line below gets the grade \<open>A+-\<close>.
\<close>

theorem line_step_grade_counterexample:
  "line_step ''MTH'' ''Fall 2020'' ([], []) ''MTH 9 Calculus 3.00 3.00 A+-\<newline>''
     = Inr ([(''MTH 9'', ''A+-'')], [(''MTH 9'', 3)])
   \<and> findall grade_rx ''MTH 9 Calculus 3.00 3.00 A+-\<newline>'' = [''A+-'']
   \<and> length ''A+-'' = 3"
  by code_simp

section \<open>The credit table\<close>

lemma line_step_creds:
  assumes "line_step subj semester (grades, creds) line = Inr (grades', creds')"
    and "map_of creds course = Some v"
  shows "map_of creds' course = Some v"
proof -
  from assms(1) obtain c where c: "course_of subj line = Inr c"
    by (auto simp: line_step_def split: sum.splits)
  show ?thesis
  proof (cases "c \<in> set (keys creds)")
    case True
    with assms c show ?thesis by (simp add: line_step_def)
  next
    case False
    with assms(1) c obtain w where "creds' = AList.update c w creds"
      by (auto simp: line_step_def split: sum.splits list.splits)
    moreover from False assms(2) have "c \<noteq> course"
      using map_of_keys [of creds course] by auto
    ultimately show ?thesis using assms(2) by (simp add: update_conv')
  qed
qed

lemma semester_step_creds:
  assumes "semester_step semester_split subj (grades, creds) i = Inr (grades', creds')"
    and "map_of creds course = Some v"
  shows "map_of creds' course = Some v"
proof -
  let ?P = "\<lambda>st :: grades \<times> creds. map_of (snd st) course = Some v"
  have "?P (grades', creds')"
  proof (rule for_each_preserves [where P = ?P])
    show "for_each (line_step subj (semester_split ! (2 * i + 1)))
            (findall (raw_grades_rx subj) (semester_split ! (2 * i + 2))) (grades, creds)
          = Inr (grades', creds')"
      using assms(1) by (simp add: semester_step_def Let_def)
    show "?P (grades, creds)" using assms(2) by simp
    show "?P s'" if "?P s" "line_step subj (semester_split ! (2 * i + 1)) s x = Inr s'" for s x s'
      using that line_step_creds [of subj _ "fst s" "snd s" x "fst s'" "snd s'" course v] by simp
  qed
  then show ?thesis by simp
qed

lemma grades_of_subj_creds:
  assumes "grades_of_subj transcript subj creds = Inr (grades', creds')"
    and "map_of creds course = Some v"
  shows "map_of creds' course = Some v"
proof -
  let ?P = "\<lambda>st :: grades \<times> creds. map_of (snd st) course = Some v"
  let ?ss = "re_split semester_rx transcript"
  from assms(1) obtain g0 where
    run: "for_each (semester_step ?ss subj) [0..<length ?ss div 2] (g0, creds) = Inr (grades', creds')"
    by (auto simp: grades_of_subj_def Let_def split: if_splits)
  have "?P (grades', creds')"
  proof (rule for_each_preserves [where P = ?P, OF run])
    show "?P (g0, creds)" using assms(2) by simp
    show "?P s'" if "?P s" "semester_step ?ss subj s x = Inr s'" for s x s'
      using that semester_step_creds [of ?ss subj "fst s" "snd s" x "fst s'" "snd s'" course v]
      by simp
  qed
  then show ?thesis by simp
qed

lemma subject_step_creds:
  assumes "subject_step cfg transcript (data_dict, creds) subj = Inr (data_dict', creds')"
    and "map_of creds course = Some v"
  shows "map_of creds' course = Some v"
proof -
  from assms(1) obtain g where "grades_of_subj transcript subj creds = Inr (g, creds')"
    by (auto simp: subject_step_def Let_def split: sum.splits)
  then show ?thesis using assms(2) by (rule grades_of_subj_creds)
qed

lemma transcript_step_creds:
  assumes "transcript_step cfg (records, creds) transcript = Inr (records', creds')"
    and "map_of creds course = Some v"
  shows "map_of creds' course = Some v"
proof -
  let ?P = "\<lambda>st :: (string, pyval) dict \<times> creds. map_of (snd st) course = Some v"
  from assms(1) obtain d d' where
    run: "for_each (subject_step cfg transcript) (SUBJECTS cfg) (d, creds) = Inr (d', creds')"
    by (auto simp: transcript_step_def split: sum.splits)
  have "?P (d', creds')"
  proof (rule for_each_preserves [where P = ?P, OF run])
    show "?P (d, creds)" using assms(2) by simp
    show "?P s'" if "?P s" "subject_step cfg transcript s x = Inr s'" for s x s'
      using that subject_step_creds [of cfg transcript "fst s" "snd s" x "fst s'" "snd s'" course v]
      by simp
  qed
  then show ?thesis by simp
qed

text \<open>
  C2. The credit table is first-seen-wins. A course that has a credit value keeps it
  through every later course line, through the rest of the transcript being read, and
  through all transcripts that follow in the run, from any point of the run.
\<close>

theorem credit_table_first_seen_wins:
  assumes "map_of creds course = Some v"
  shows "(line_step subj semester (grades, creds) line = Inr (grades1, creds1)
            \<longrightarrow> map_of creds1 course = Some v)
       \<and> (grades_of_subj transcript subj creds = Inr (grades2, creds2)
            \<longrightarrow> map_of creds2 course = Some v)
       \<and> (for_each (transcript_step cfg) transcripts (records, creds) = Inr (records3, creds3)
            \<longrightarrow> map_of creds3 course = Some v)"
proof -
  let ?P = "\<lambda>st :: (string, pyval) dict list \<times> creds. map_of (snd st) course = Some v"
  have "?P (records3, creds3)"
    if run: "for_each (transcript_step cfg) transcripts (records, creds) = Inr (records3, creds3)"
  proof (rule for_each_preserves [where P = ?P, OF run])
    show "?P (records, creds)" using assms by simp
    show "?P s'" if "?P s" "transcript_step cfg s x = Inr s'" for s x s'
      using that transcript_step_creds [of cfg "fst s" "snd s" x "fst s'" "snd s'" course v]
      by simp
  qed
  then show ?thesis
    using assms line_step_creds grades_of_subj_creds by auto
qed

theorem credit_table_first_seen_wins_witness:
  "map_of [(''MTH 9'', 4 :: rat)] ''MTH 9'' = Some 4
   \<and> line_step ''MTH'' ''Fall 2021'' ([], [(''MTH 9'', 4)]) ''MTH 9 Calculus 3.00 3.00 B\<newline>''
       = Inr ([(''MTH 9'', ''B'')], [(''MTH 9'', 4)])
   \<and> grades_of_subj
         ''Name : Bob Ray\<newline>Student ID: 200\<newline>Sex : M\<newline>Fall 2021\<newline>MTH 9 Calculus 3.00 3.00 B\<newline>MTH 10 Algebra 3.00 3.00 A\<newline>''
         ''MTH'' [(''MTH 9'', 4)]
       = Inr ([(''MTH 9'', ''B''), (''MTH 10'', ''A'')], [(''MTH 9'', 4), (''MTH 10'', 3)])
   \<and> for_each (transcript_step default_config)
         [''Name : Bob Ray\<newline>Student ID: 200\<newline>Sex : M\<newline>Fall 2021\<newline>MTH 9 Calculus 3.00 3.00 B\<newline>MTH 10 Algebra 3.00 3.00 A\<newline>'']
         ([], [(''MTH 9'', 4)])
       = Inr ([[(''Name'', PyStr ''Bob Ray''), (''Student_ID'', PyStr ''200''),
                (''Sex'', PyStr ''M''), (''Address1'', PyStr []),
                (''Address2'', PyStr []), (''Address3'', PyStr []),
                (''MTH 9'', PyStr ''B''), (''MTH 10'', PyStr ''A''),
                (''Num MTH^ courses'', PyInt 2),
                (''Num MTH^ creds'', PyFloat 7), (''MTH^ GPA'', PyFloat (24 / 7)),
                (''Num MTH^ now'', PyInt 0), (''Num PHY^ courses'', PyInt 0),
                (''Num PHY^ creds'', PyInt 0), (''PHY^ GPA'', PyNaN),
                (''Num PHY^ now'', PyInt 0)]],
              [(''MTH 9'', 4), (''MTH 10'', 3)])
   \<and> map_of [(''MTH 9'', 4 :: rat), (''MTH 10'', 3)] ''MTH 9'' = Some 4"
proof -
  have h: "map_of [(''MTH 9'', 4 :: rat)] ''MTH 9'' = Some 4"
    by simp
  have a: "line_step ''MTH'' ''Fall 2021'' ([], [(''MTH 9'', 4)]) ''MTH 9 Calculus 3.00 3.00 B\<newline>''
           = Inr ([(''MTH 9'', ''B'')], [(''MTH 9'', 4)])"
    by code_simp
  have b: "grades_of_subj
         ''Name : Bob Ray\<newline>Student ID: 200\<newline>Sex : M\<newline>Fall 2021\<newline>MTH 9 Calculus 3.00 3.00 B\<newline>MTH 10 Algebra 3.00 3.00 A\<newline>''
         ''MTH'' [(''MTH 9'', 4)]
       = Inr ([(''MTH 9'', ''B''), (''MTH 10'', ''A'')], [(''MTH 9'', 4), (''MTH 10'', 3)])"
    by code_simp
  have c: "for_each (transcript_step default_config)
         [''Name : Bob Ray\<newline>Student ID: 200\<newline>Sex : M\<newline>Fall 2021\<newline>MTH 9 Calculus 3.00 3.00 B\<newline>MTH 10 Algebra 3.00 3.00 A\<newline>'']
         ([], [(''MTH 9'', 4)])
       = Inr ([[(''Name'', PyStr ''Bob Ray''), (''Student_ID'', PyStr ''200''),
                (''Sex'', PyStr ''M''), (''Address1'', PyStr []),
                (''Address2'', PyStr []), (''Address3'', PyStr []),
                (''MTH 9'', PyStr ''B''), (''MTH 10'', PyStr ''A''),
                (''Num MTH^ courses'', PyInt 2),
                (''Num MTH^ creds'', PyFloat 7), (''MTH^ GPA'', PyFloat (24 / 7)),
                (''Num MTH^ now'', PyInt 0), (''Num PHY^ courses'', PyInt 0),
                (''Num PHY^ creds'', PyInt 0), (''PHY^ GPA'', PyNaN),
                (''Num PHY^ now'', PyInt 0)]],
              [(''MTH 9'', 4), (''MTH 10'', 3)])"
    by code_simp
  from credit_table_first_seen_wins [OF h, THEN conjunct2, THEN conjunct2, THEN mp, OF c]
  have "map_of [(''MTH 9'', 4 :: rat), (''MTH 10'', 3)] ''MTH 9'' = Some 4" .
  with h a b c show ?thesis by blast
qed

section \<open>The grades of one student\<close>

text \<open>
  The course lines of a transcript in document order, each with the label of its
  semester, and the occurrences of one course key among them.
\<close>

definition semesters :: "string list \<Rightarrow> (string \<times> string) list" where
  "semesters semester_split =
     map (\<lambda>i. (semester_split ! (2 * i + 1), semester_split ! (2 * i + 2)))
       [0..<length semester_split div 2]"

definition course_lines :: "string \<Rightarrow> string \<Rightarrow> (string \<times> string) list" where
  "course_lines subj transcript =
     concat (map (\<lambda>(semester, info). map (Pair semester) (findall (raw_grades_rx subj) info))
               (semesters (re_split semester_rx transcript)))"

definition occurrences :: "string \<Rightarrow> string \<Rightarrow> string \<Rightarrow> (string \<times> string) list" where
  "occurrences subj transcript course =
     filter (\<lambda>(semester, line). course_of subj line = Inr course) (course_lines subj transcript)"

definition line_loop :: "string \<Rightarrow> grades \<times> creds \<Rightarrow> string \<times> string \<Rightarrow> error + grades \<times> creds" where
  "line_loop subj st p = line_step subj (fst p) st (snd p)"

lemma grades_of_subj_flat:
  assumes "grades_of_subj transcript subj creds = Inr (grades, creds')"
  shows "\<exists>g0. (g0 = [] \<or> (\<exists>p. g0 = [(''Plan'', p)]))
              \<and> for_each (line_loop subj) (course_lines subj transcript) (g0, creds)
                  = Inr (grades, creds')"
proof -
  let ?ss = "re_split semester_rx transcript"
  from assms obtain g0 where
    g0: "g0 = [] \<or> (\<exists>p. g0 = [(''Plan'', p)])" and
    run: "for_each (semester_step ?ss subj) [0..<length ?ss div 2] (g0, creds) = Inr (grades, creds')"
    by (auto simp: grades_of_subj_def Let_def split: if_splits list.splits)
  have "semester_step ?ss subj =
          (\<lambda>st i. for_each (line_step subj (?ss ! (2 * i + 1)))
                     (findall (raw_grades_rx subj) (?ss ! (2 * i + 2))) st)"
    by (intro ext) (simp add: semester_step_def Let_def)
  then have "for_each (line_loop subj) (course_lines subj transcript) st
        = for_each (semester_step ?ss subj) [0..<length ?ss div 2] st" for st
    by (simp add: course_lines_def semesters_def for_each_concat_map for_each_map
                  line_loop_def comp_def)
  with g0 run show ?thesis by auto
qed

lemma line_loop_grades:
  assumes "line_loop subj (g, c) (semester, line) = Inr (g', c')"
  shows "\<exists>k. course_of subj line = Inr k \<and> g' = AList.update k (grade_of semester line) g"
  using assms by (auto simp: line_loop_def line_step_def split: sum.splits)

lemma line_loop_last_wins:
  assumes "for_each (line_loop subj) ps (g, c) = Inr (g', c')"
  shows "map_of g' course =
           (case filter (\<lambda>(semester, line). course_of subj line = Inr course) ps of
              [] \<Rightarrow> map_of g course
            | occ \<Rightarrow> Some (grade_of (fst (last occ)) (snd (last occ))))"
  using assms
proof (induction ps arbitrary: g c)
  case Nil
  then show ?case by simp
next
  case (Cons p ps)
  obtain semester line where p: "p = (semester, line)" by (cases p)
  from Cons.prems obtain g1 c1 where
    s1: "line_loop subj (g, c) (semester, line) = Inr (g1, c1)" and
    rest: "for_each (line_loop subj) ps (g1, c1) = Inr (g', c')"
    by (auto simp: p split: sum.splits)
  from line_loop_grades [OF s1] obtain k where
    k: "course_of subj line = Inr k" "g1 = AList.update k (grade_of semester line) g"
    by blast
  note IH = Cons.IH [OF rest]
  show ?case
  proof (cases "k = course")
    case True
    with k IH show ?thesis
      by (auto simp: p update_conv' split: list.splits)
  next
    case False
    with k IH show ?thesis
      by (auto simp: p update_conv' split: list.splits)
  qed
qed

text \<open>
  C3. A course key that occurs on course lines of the transcript, in one semester or in
  several, is bound in the mapping that \<open>grades_of_subj\<close> returns to the grade, or the
  placeholder, of its last occurrence in document order.
\<close>

theorem grades_last_write_wins:
  assumes "grades_of_subj transcript subj creds = Inr (grades, creds')"
    and "occurrences subj transcript course \<noteq> []"
  shows "map_of grades course =
           Some (grade_of (fst (last (occurrences subj transcript course)))
                          (snd (last (occurrences subj transcript course))))"
proof -
  from grades_of_subj_flat [OF assms(1)] obtain g0 where
    "for_each (line_loop subj) (course_lines subj transcript) (g0, creds) = Inr (grades, creds')"
    by blast
  from line_loop_last_wins [OF this, of course] assms(2) show ?thesis
    by (auto simp: occurrences_def split: list.splits)
qed

theorem grades_last_write_wins_witness:
  "grades_of_subj
     ''Name : Ann Lee\<newline>Fall 2020\<newline>MTH 9 Calculus 4.00 4.00 C\<newline>Spring 2021\<newline>MTH 9 Calculus 4.00 4.00 A\<newline>Fall 2021\<newline>MTH 22 Algebra 3.00\<newline>''
     ''MTH'' []
     = Inr ([(''MTH 9'', ''A''), (''MTH 22'', ''F21'')], [(''MTH 9'', 4), (''MTH 22'', 3)])
   \<and> occurrences ''MTH''
         ''Name : Ann Lee\<newline>Fall 2020\<newline>MTH 9 Calculus 4.00 4.00 C\<newline>Spring 2021\<newline>MTH 9 Calculus 4.00 4.00 A\<newline>Fall 2021\<newline>MTH 22 Algebra 3.00\<newline>''
         ''MTH 9''
       = [(''Fall 2020'', ''MTH 9 Calculus 4.00 4.00 C\<newline>''),
          (''Spring 2021'', ''MTH 9 Calculus 4.00 4.00 A\<newline>'')]
   \<and> grade_of ''Spring 2021'' ''MTH 9 Calculus 4.00 4.00 A\<newline>'' = ''A''
   \<and> map_of [(''MTH 9'', ''A''), (''MTH 22'', ''F21'')] ''MTH 9'' = Some ''A''"
proof -
  have a: "grades_of_subj
     ''Name : Ann Lee\<newline>Fall 2020\<newline>MTH 9 Calculus 4.00 4.00 C\<newline>Spring 2021\<newline>MTH 9 Calculus 4.00 4.00 A\<newline>Fall 2021\<newline>MTH 22 Algebra 3.00\<newline>''
     ''MTH'' []
     = Inr ([(''MTH 9'', ''A''), (''MTH 22'', ''F21'')], [(''MTH 9'', 4), (''MTH 22'', 3)])"
    by code_simp
  have b: "occurrences ''MTH''
         ''Name : Ann Lee\<newline>Fall 2020\<newline>MTH 9 Calculus 4.00 4.00 C\<newline>Spring 2021\<newline>MTH 9 Calculus 4.00 4.00 A\<newline>Fall 2021\<newline>MTH 22 Algebra 3.00\<newline>''
         ''MTH 9''
       = [(''Fall 2020'', ''MTH 9 Calculus 4.00 4.00 C\<newline>''),
          (''Spring 2021'', ''MTH 9 Calculus 4.00 4.00 A\<newline>'')]"
    by code_simp
  have c: "grade_of ''Spring 2021'' ''MTH 9 Calculus 4.00 4.00 A\<newline>'' = ''A''"
    by code_simp
  from b have "occurrences ''MTH''
         ''Name : Ann Lee\<newline>Fall 2020\<newline>MTH 9 Calculus 4.00 4.00 C\<newline>Spring 2021\<newline>MTH 9 Calculus 4.00 4.00 A\<newline>Fall 2021\<newline>MTH 22 Algebra 3.00\<newline>''
         ''MTH 9'' \<noteq> []"
    by simp
  from grades_last_write_wins [OF a this] have
    "map_of [(''MTH 9'', ''A''), (''MTH 22'', ''F21'')] ''MTH 9'' = Some ''A''"
    unfolding b using c by simp
  with a b c show ?thesis by blast
qed

section \<open>The subject summary\<close>

text \<open>The entry of a returned summary under the key \<^verbatim>\<open>f"{subj}^ GPA"\<close>.\<close>

definition gpa_field :: "string \<Rightarrow> error + (string, pyval) dict \<Rightarrow> pyval option" where
  "gpa_field subj res =
     (case res of Inl e \<Rightarrow> None | Inr summary \<Rightarrow> map_of summary (subj @ ''^ GPA''))"

text \<open>
  The quantities of the specification of the subject summary: the filtered set (courses
  not excluded whose value is a recognized letter grade), its credit total and its
  grade points weighted by credits.
\<close>

definition excluded_courses :: "config \<Rightarrow> string \<Rightarrow> string list" where
  "excluded_courses cfg subj =
     (case map_of (IGNORE_COURSES cfg) subj of None \<Rightarrow> [] | Some ignored \<Rightarrow> ignored)"

definition filtered_courses :: "config \<Rightarrow> string \<Rightarrow> grades \<Rightarrow> string list" where
  "filtered_courses cfg subj subj_grades =
     filter (\<lambda>course. course \<notin> set (excluded_courses cfg subj) \<and>
                (case map_of subj_grades course of
                   None \<Rightarrow> False
                 | Some grade \<Rightarrow> grade \<in> set (keys (GPA_VAL cfg))))
            (keys subj_grades)"

definition grade_point_value :: "config \<Rightarrow> string \<Rightarrow> rat" where
  "grade_point_value cfg grade = the (map_of (GPA_VAL cfg) grade)"

definition credit_total :: "creds \<Rightarrow> string list \<Rightarrow> rat" where
  "credit_total creds courses = (\<Sum>course\<leftarrow>courses. the (map_of creds course))"

definition weighted_points :: "config \<Rightarrow> grades \<Rightarrow> creds \<Rightarrow> string list \<Rightarrow> rat" where
  "weighted_points cfg subj_grades creds courses =
     (\<Sum>course\<leftarrow>courses.
        grade_point_value cfg (the (map_of subj_grades course)) * the (map_of creds course))"

lemma courses_to_count_Inr:
  "courses_to_count cfg subj subj_grades = Inr counted \<Longrightarrow>
   counted = filtered_courses cfg subj subj_grades"
  by (auto simp: courses_to_count_def filtered_courses_def excluded_courses_def getitem_def
           split: if_splits option.splits sum.splits)

lemma creds_lookup_values:
  "map (getitem creds) cs = map Inr vs \<Longrightarrow> vs = map (\<lambda>c. the (map_of creds c)) cs"
proof (induction cs arbitrary: vs)
  case Nil
  then show ?case by simp
next
  case (Cons c cs)
  then show ?case by (cases vs) (auto simp: getitem_Inr)
qed

lemma grade_points_values:
  "map (grade_points cfg subj_grades creds) cs = map Inr ps \<Longrightarrow>
   ps = map (\<lambda>c. grade_point_value cfg (the (map_of subj_grades c)) * the (map_of creds c)) cs"
proof (induction cs arbitrary: ps)
  case Nil
  then show ?case by simp
next
  case (Cons c cs)
  then show ?case
    by (cases ps)
       (auto simp: grade_points_def grade_point_value_def getitem_Inr split: sum.splits)
qed

lemma gpa_key_distinct:
  "''Num '' @ subj @ ''^ courses'' \<noteq> subj @ ''^ GPA''"
  "''Num '' @ subj @ ''^ creds'' \<noteq> subj @ ''^ GPA''"
proof -
  have "length (''Num '' @ subj @ ''^ courses'') \<noteq> length (subj @ ''^ GPA'')" by simp
  then show "''Num '' @ subj @ ''^ courses'' \<noteq> subj @ ''^ GPA''" by metis
  have "length (''Num '' @ subj @ ''^ creds'') \<noteq> length (subj @ ''^ GPA'')" by simp
  then show "''Num '' @ subj @ ''^ creds'' \<noteq> subj @ ''^ GPA''" by metis
qed

lemma grade_points_Inl: "grade_points cfg subj_grades creds course = Inl e \<Longrightarrow> e = KeyError"
  by (auto simp: grade_points_def getitem_Inl split: sum.splits)

lemma in_progress_Inl: "in_progress cfg subj subj_grades = Inl e \<Longrightarrow> e = KeyError"
  by (auto simp: in_progress_def getitem_Inl split: sum.splits if_splits)

lemma courses_to_count_Inl: "courses_to_count cfg subj subj_grades = Inl e \<Longrightarrow> e = KeyError"
  by (auto simp: courses_to_count_def getitem_Inl split: sum.splits if_splits)

lemma subj_summary_raises:
  assumes "subj_summary cfg subj subj_grades creds = Inl e"
  shows "e = KeyError"
proof (cases "courses_to_count cfg subj subj_grades")
  case (Inl e')
  with assms show ?thesis by (auto simp: subj_summary_def dest: courses_to_count_Inl)
next
  case counted: (Inr counted)
  show ?thesis
  proof (cases "sequence (map (getitem creds) counted)")
    case (Inl e')
    with assms counted have "e' = e" by (simp add: subj_summary_def)
    with Inl show ?thesis by (auto dest!: sequence_map_Inl simp: getitem_Inl)
  next
    case cs: (Inr cs)
    show ?thesis
    proof (cases "sequence (map (grade_points cfg subj_grades creds) counted)")
      case (Inl e')
      with assms counted cs have "e' = e" by (simp add: subj_summary_def)
      with Inl show ?thesis by (auto dest!: sequence_map_Inl dest: grade_points_Inl)
    next
      case (Inr ps)
      with assms counted cs show ?thesis
        by (auto simp: subj_summary_def Let_def split: sum.splits dest: in_progress_Inl)
    qed
  qed
qed

lemma courses_to_count_returns:
  "(\<exists>counted. courses_to_count cfg subj subj_grades = Inr counted) \<longleftrightarrow>
   subj_grades = [] \<or> map_of (IGNORE_COURSES cfg) subj \<noteq> None"
  by (auto simp: courses_to_count_def getitem_def split: option.splits)

lemma in_progress_returns:
  "(\<exists>now. in_progress cfg subj subj_grades = Inr now) \<longleftrightarrow>
   subj_grades = [] \<or> map_of (IGNORE_COURSES cfg) subj \<noteq> None"
  by (auto simp: in_progress_def getitem_def split: option.splits)

lemma grade_points_returns:
  assumes "course \<in> set (filtered_courses cfg subj subj_grades)"
  shows "(\<exists>p. grade_points cfg subj_grades creds course = Inr p) \<longleftrightarrow> course \<in> set (keys creds)"
proof -
  from assms obtain grade where g: "map_of subj_grades course = Some grade" "grade \<in> set (keys (GPA_VAL cfg))"
    by (auto simp: filtered_courses_def split: option.splits)
  then obtain p where "map_of (GPA_VAL cfg) grade = Some p"
    using map_of_keys [of "GPA_VAL cfg" grade] by auto
  with g show ?thesis
    using map_of_keys [of creds course]
    by (auto simp: grade_points_def getitem_def split: option.splits)
qed

lemma subj_summary_returns_iff:
  "(\<exists>summary. subj_summary cfg subj subj_grades creds = Inr summary) \<longleftrightarrow>
   (subj_grades = [] \<or> map_of (IGNORE_COURSES cfg) subj \<noteq> None) \<and>
   set (filtered_courses cfg subj subj_grades) \<subseteq> set (keys creds)"
  (is "?L \<longleftrightarrow> ?A \<and> ?B")
proof
  assume ?L
  then obtain counted cs where
    c: "courses_to_count cfg subj subj_grades = Inr counted" and
    cs: "sequence (map (getitem creds) counted) = Inr cs"
    by (auto simp: subj_summary_def Let_def split: sum.splits)
  from c have ?A using courses_to_count_returns by blast
  moreover from c have "counted = filtered_courses cfg subj subj_grades"
    by (rule courses_to_count_Inr)
  with cs have ?B
    using sequence_map_returns [of "getitem creds" counted] getitem_returns [of creds]
    by blast
  ultimately show "?A \<and> ?B" ..
next
  assume ab: "?A \<and> ?B"
  let ?F = "filtered_courses cfg subj subj_grades"
  from ab obtain counted where c: "courses_to_count cfg subj subj_grades = Inr counted"
    using courses_to_count_returns by blast
  then have F: "counted = ?F" by (rule courses_to_count_Inr)
  from ab obtain now where n: "in_progress cfg subj subj_grades = Inr now"
    using in_progress_returns by blast
  from ab have "\<forall>x\<in>set ?F. \<exists>v. getitem creds x = Inr v"
    using getitem_returns [of creds] by blast
  then obtain cs where cs: "sequence (map (getitem creds) counted) = Inr cs"
    using sequence_map_returns [of "getitem creds" ?F] F by blast
  from ab have "\<forall>x\<in>set ?F. \<exists>p. grade_points cfg subj_grades creds x = Inr p"
    using grade_points_returns [of _ cfg subj subj_grades creds] by blast
  then obtain ps where ps: "sequence (map (grade_points cfg subj_grades creds) counted) = Inr ps"
    using sequence_map_returns [of "grade_points cfg subj_grades creds" ?F] F by blast
  from c cs ps n show ?L by (simp add: subj_summary_def Let_def)
qed

text \<open>
  C1, as the code computes it. For every configuration (so every exclusion set), every
  mapping and every credit table: whenever \<open>subj_summary\<close> returns, the gpa it reports is
  the sum over the filtered set of grade_point_value(grade) times CreditTable[course],
  divided by the credit total of that set, provided the credit total is positive; when
  the credit total is not positive, in particular when it is 0, the gpa is NaN and never
  0. (It returns unless the lookup of a counted course in the credit table, or of the
  subject in the exclusion table, raises \<open>KeyError\<close>: \<open>subj_summary_returns_iff\<close>.)
\<close>

theorem subj_summary_gpa:
  assumes "subj_summary cfg subj subj_grades creds = Inr summary"
  shows "map_of summary (subj @ ''^ GPA'') =
           Some (if 0 < credit_total creds (filtered_courses cfg subj subj_grades)
                 then PyFloat
                        (weighted_points cfg subj_grades creds (filtered_courses cfg subj subj_grades)
                         / credit_total creds (filtered_courses cfg subj subj_grades))
                 else PyNaN)
         \<and> (credit_total creds (filtered_courses cfg subj subj_grades) = 0 \<longrightarrow>
              map_of summary (subj @ ''^ GPA'') = Some PyNaN)"
proof -
  let ?F = "filtered_courses cfg subj subj_grades"
  from assms obtain counted where c: "courses_to_count cfg subj subj_grades = Inr counted"
    by (cases "courses_to_count cfg subj subj_grades") (auto simp: subj_summary_def)
  from assms c obtain cs where cs: "sequence (map (getitem creds) counted) = Inr cs"
    by (cases "sequence (map (getitem creds) counted)") (auto simp: subj_summary_def)
  from assms c cs obtain ps where
    ps: "sequence (map (grade_points cfg subj_grades creds) counted) = Inr ps"
    by (cases "sequence (map (grade_points cfg subj_grades creds) counted)")
       (auto simp: subj_summary_def)
  from assms c cs ps obtain now where now: "in_progress cfg subj subj_grades = Inr now"
    by (cases "in_progress cfg subj subj_grades") (auto simp: subj_summary_def Let_def)
  from assms c cs ps now have s:
    "summary =
       [(''Num '' @ subj @ ''^ courses'', PyInt (int (length counted))),
        (''Num '' @ subj @ ''^ creds'', py_sum cs),
        (subj @ ''^ GPA'',
         if num_of (py_sum cs) > 0 then PyFloat (num_of (py_sum ps) / num_of (py_sum cs))
         else PyNaN),
        (''Num '' @ subj @ ''^ now'', PyInt (int (length now)))]"
    by (simp add: subj_summary_def Let_def)
  have F: "counted = ?F" using c by (rule courses_to_count_Inr)
  have 1: "sum_list cs = credit_total creds ?F"
    using cs creds_lookup_values [of creds counted cs]
    by (simp add: sequence_Inr credit_total_def F)
  have 2: "sum_list ps = weighted_points cfg subj_grades creds ?F"
    using ps grade_points_values [of cfg subj_grades creds counted ps]
    by (simp add: sequence_Inr weighted_points_def F)
  show ?thesis
    unfolding s using gpa_key_distinct [of subj]
    by (simp add: num_of_py_sum 1 2)
qed

theorem subj_summary_gpa_witness:
  "subj_summary default_config ''MTH'' [(''MTH 9'', ''A''), (''MTH 22'', ''B'')] [(''MTH 9'', 4), (''MTH 22'', 3)]
     = Inr [(''Num MTH^ courses'', PyInt 2), (''Num MTH^ creds'', PyFloat 7),
            (''MTH^ GPA'', PyFloat (25 / 7)), (''Num MTH^ now'', PyInt 0)]
   \<and> weighted_points default_config [(''MTH 9'', ''A''), (''MTH 22'', ''B'')] [(''MTH 9'', 4), (''MTH 22'', 3)]
        (filtered_courses default_config ''MTH'' [(''MTH 9'', ''A''), (''MTH 22'', ''B'')])
      / credit_total [(''MTH 9'', 4), (''MTH 22'', 3)]
          (filtered_courses default_config ''MTH'' [(''MTH 9'', ''A''), (''MTH 22'', ''B'')]) = 25 / 7
   \<and> subj_summary default_config ''MTH'' [(''MTH 9'', ''A'')] [(''MTH 9'', 0)]
     = Inr [(''Num MTH^ courses'', PyInt 1), (''Num MTH^ creds'', PyFloat 0),
            (''MTH^ GPA'', PyNaN), (''Num MTH^ now'', PyInt 0)]
   \<and> credit_total [(''MTH 9'', 0)] (filtered_courses default_config ''MTH'' [(''MTH 9'', ''A'')]) = 0"
proof -
  have a: "subj_summary default_config ''MTH'' [(''MTH 9'', ''A''), (''MTH 22'', ''B'')]
             [(''MTH 9'', 4), (''MTH 22'', 3)]
           = Inr [(''Num MTH^ courses'', PyInt 2), (''Num MTH^ creds'', PyFloat 7),
                  (''MTH^ GPA'', PyFloat (25 / 7)), (''Num MTH^ now'', PyInt 0)]"
    by code_simp
  have b: "subj_summary default_config ''MTH'' [(''MTH 9'', ''A'')] [(''MTH 9'', 0)]
           = Inr [(''Num MTH^ courses'', PyInt 1), (''Num MTH^ creds'', PyFloat 0),
                  (''MTH^ GPA'', PyNaN), (''Num MTH^ now'', PyInt 0)]"
    by code_simp
  have c: "0 < credit_total [(''MTH 9'', 4), (''MTH 22'', 3)]
             (filtered_courses default_config ''MTH'' [(''MTH 9'', ''A''), (''MTH 22'', ''B'')])"
    by code_simp
  have d: "credit_total [(''MTH 9'', 0)] (filtered_courses default_config ''MTH'' [(''MTH 9'', ''A'')]) = 0"
    by code_simp
  from subj_summary_gpa [OF a] c subj_summary_gpa [OF b] a b d show ?thesis
    by simp
qed

text \<open>
  C1 as stated is about every mapping and every credit table. It fails where a counted
  course has no credits (the entry \<open>Plan\<close> that \<open>grades_of_subj\<close> adds never has any):
  \<open>subj_summary\<close> raises \<open>KeyError\<close> and computes no gpa. It fails for a negative
  credit total: there the stated quotient is defined, here 4, and the code reports NaN.
\<close>

theorem subj_summary_gpa_counterexample:
  "subj_summary default_config ''MTH'' [(''Plan'', ''A'')] [] = Inl KeyError
   \<and> credit_total [(''MTH 9'', - 3)] (filtered_courses default_config ''MTH'' [(''MTH 9'', ''A'')]) = - 3
   \<and> weighted_points default_config [(''MTH 9'', ''A'')] [(''MTH 9'', - 3)]
        (filtered_courses default_config ''MTH'' [(''MTH 9'', ''A'')])
      / credit_total [(''MTH 9'', - 3)] (filtered_courses default_config ''MTH'' [(''MTH 9'', ''A'')]) = 4
   \<and> gpa_field ''MTH'' (subj_summary default_config ''MTH'' [(''MTH 9'', ''A'')] [(''MTH 9'', - 3)])
     = Some PyNaN"
  by code_simp

text \<open>
  C8, as the code computes it. For the mapping \<open>{A: "A", B: "B-"}\<close> with credits 3.00 and
  4.00 and an empty exclusion set, \<open>subj_summary\<close> yields
  gpa = (4.0 * 3 + 2.667 * 4) / 7, which is 22.668 / 7, about 3.238.
\<close>

theorem subj_summary_example_gpa:
  "gpa_field ''MTH'' (subj_summary (default_config\<lparr>IGNORE_COURSES := [(''MTH'', [])]\<rparr>) ''MTH''
                [(''A'', ''A''), (''B'', ''B-'')] [(''A'', 3), (''B'', 4)])
     = Some (PyFloat ((4 * 3 + 2667 / 1000 * 4) / 7))
   \<and> \<bar>(4 * 3 + 2667 / 1000 * 4) / 7 - (3238 / 1000 :: rat)\<bar> \<le> 5 / 10000"
  by code_simp

text \<open>
  C8 as stated gives that quotient as about 2.667. The value the code returns is more
  than one half away from 2.667.
\<close>

theorem subj_summary_example_gpa_not_2667:
  "gpa_field ''MTH'' (subj_summary (default_config\<lparr>IGNORE_COURSES := [(''MTH'', [])]\<rparr>) ''MTH''
                [(''A'', ''A''), (''B'', ''B-'')] [(''A'', 3), (''B'', 4)])
     = Some (PyFloat (5667 / 1750))
   \<and> \<not> \<bar>5667 / 1750 - (2667 / 1000 :: rat)\<bar> \<le> 1 / 2"
  by code_simp

section \<open>The declared plan\<close>

lemma course_of_not_Plan: "course_of subj line = Inr k \<Longrightarrow> k \<noteq> ''Plan''"
proof
  assume "course_of subj line = Inr k" "k = ''Plan''"
  then obtain n where "subj @ '' '' @ n = ''Plan''"
    by (auto simp: course_of_def split: list.splits)
  then have "CHR '' '' \<in> set ''Plan''" by (metis in_set_conv_decomp append_Cons)
  then show False by simp
qed

lemma grades_of_subj_flat_plan:
  assumes "grades_of_subj transcript subj creds = Inr (grades, creds')"
  shows "for_each (line_loop subj) (course_lines subj transcript)
           (case findall plan_rx (last (re_split semester_rx transcript)) of
              [] \<Rightarrow> []
            | p # _ \<Rightarrow> [(''Plan'', p)], creds)
         = Inr (grades, creds')"
proof -
  let ?ss = "re_split semester_rx transcript"
  let ?g0 = "case findall plan_rx (last ?ss) of [] \<Rightarrow> [] | p # _ \<Rightarrow> [(''Plan'', p)]"
  from assms have
    run: "for_each (semester_step ?ss subj) [0..<length ?ss div 2] (?g0, creds) = Inr (grades, creds')"
    by (auto simp: grades_of_subj_def Let_def split: if_splits)
  have "semester_step ?ss subj =
          (\<lambda>st i. for_each (line_step subj (?ss ! (2 * i + 1)))
                     (findall (raw_grades_rx subj) (?ss ! (2 * i + 2))) st)"
    by (intro ext) (simp add: semester_step_def Let_def)
  then have "for_each (line_loop subj) (course_lines subj transcript) st
        = for_each (semester_step ?ss subj) [0..<length ?ss div 2] st" for st
    by (simp add: course_lines_def semesters_def for_each_concat_map for_each_map
                  line_loop_def comp_def)
  with run show ?thesis by simp
qed

lemma line_loop_keys:
  assumes "line_loop subj (g, c) p = Inr (g', c')" and "''Plan'' \<notin> set (keys c)"
  shows "''Plan'' \<notin> set (keys c')"
proof -
  from assms(1) obtain k where k: "course_of subj (snd p) = Inr k"
    by (auto simp: line_loop_def line_step_def split: sum.splits)
  with assms(1) have "c' = c \<or> (\<exists>w. c' = AList.update k w c)"
    by (auto simp: line_loop_def line_step_def split: sum.splits list.splits if_splits)
  with assms(2) course_of_not_Plan [OF k] show ?thesis
    using map_of_keys [of c "''Plan''"] map_of_keys [of c' "''Plan''"]
    by (auto simp: update_conv')
qed

lemma grades_of_subj_Plan_creds:
  assumes "grades_of_subj transcript subj creds = Inr (grades, creds')"
    and "''Plan'' \<notin> set (keys creds)"
  shows "''Plan'' \<notin> set (keys creds')"
proof -
  let ?P = "\<lambda>st :: grades \<times> creds. ''Plan'' \<notin> set (keys (snd st))"
  have "?P (grades, creds')"
  proof (rule for_each_preserves [where P = ?P, OF grades_of_subj_flat_plan [OF assms(1)]])
    show "?P (case findall plan_rx (last (re_split semester_rx transcript)) of
              [] \<Rightarrow> []
            | p # _ \<Rightarrow> [(''Plan'', p)], creds)"
      using assms(2) by simp
    show "?P s'" if "?P s" "line_loop subj s x = Inr s'" for s x s'
      using that line_loop_keys [of subj "fst s" "snd s" x "fst s'" "snd s'"] by simp
  qed
  then show ?thesis by simp
qed

text \<open>
  The entries of a subject-grade mapping other than \<open>Plan\<close>, and the courses that
  \<open>subj_summary\<close> counts as in progress (the comprehension \<open>now\<close>).
\<close>

definition course_entries :: "grades \<Rightarrow> grades" where
  "course_entries subj_grades = filter (\<lambda>(course, grade). course \<noteq> ''Plan'') subj_grades"

definition current_courses :: "config \<Rightarrow> string \<Rightarrow> grades \<Rightarrow> string list" where
  "current_courses cfg subj subj_grades =
     filter (\<lambda>course. course \<notin> set (excluded_courses cfg subj) \<and>
                map_of subj_grades course = Some (CURR_SEM cfg))
            (keys subj_grades)"

lemma in_progress_Inr:
  "in_progress cfg subj subj_grades = Inr now \<Longrightarrow> now = current_courses cfg subj subj_grades"
  by (auto simp: in_progress_def current_courses_def excluded_courses_def getitem_def
           split: if_splits option.splits sum.splits)

lemma keys_update: "set (keys (AList.update k w d)) = insert k (set (keys d))"
  using dom_update [of k w d] by (simp add: keys_def)

lemma line_loop_step:
  assumes "line_loop subj (g, c) p = Inr (g', c')"
  shows "\<exists>k. k \<noteq> ''Plan'' \<and> g' = AList.update k (grade_of (fst p) (snd p)) g
             \<and> set (keys c') = insert k (set (keys c))"
proof -
  from assms obtain k where k: "course_of subj (snd p) = Inr k"
    by (auto simp: line_loop_def line_step_def split: sum.splits)
  with assms have g': "g' = AList.update k (grade_of (fst p) (snd p)) g"
    by (auto simp: line_loop_def line_step_def split: sum.splits)
  from assms k have "k \<in> set (keys c) \<and> c' = c \<or> (\<exists>w. c' = AList.update k w c)"
    by (auto simp: line_loop_def line_step_def split: sum.splits list.splits if_splits)
  then have "set (keys c') = insert k (set (keys c))"
    by (auto simp: keys_update)
  with g' course_of_not_Plan [OF k] show ?thesis by blast
qed

lemma line_loop_plan_first:
  assumes "for_each (line_loop subj) ps ([(''Plan'', v)], creds) = Inr (grades, creds')"
  shows "\<exists>courses. grades = (''Plan'', v) # courses
           \<and> ''Plan'' \<notin> set (keys courses)
           \<and> set (keys courses) \<subseteq> set (keys creds')
           \<and> (''Plan'' \<in> set (keys creds') \<longleftrightarrow> ''Plan'' \<in> set (keys creds))"
proof -
  let ?P = "\<lambda>st :: grades \<times> creds.
      \<exists>courses. fst st = (''Plan'', v) # courses
           \<and> ''Plan'' \<notin> set (keys courses)
           \<and> set (keys courses) \<subseteq> set (keys (snd st))
           \<and> (''Plan'' \<in> set (keys (snd st)) \<longleftrightarrow> ''Plan'' \<in> set (keys creds))"
  have "?P (grades, creds')"
  proof (rule for_each_preserves [where P = ?P, OF assms])
    show "?P ([(''Plan'', v)], creds)" by (simp add: keys_def)
    show "?P s'" if P: "?P s" and step: "line_loop subj s x = Inr s'" for s x s'
    proof -
      from P obtain courses where
        s: "fst s = (''Plan'', v) # courses" "''Plan'' \<notin> set (keys courses)"
           "set (keys courses) \<subseteq> set (keys (snd s))"
           "''Plan'' \<in> set (keys (snd s)) \<longleftrightarrow> ''Plan'' \<in> set (keys creds)"
        by blast
      from line_loop_step [of subj "fst s" "snd s" x "fst s'" "snd s'"] step
      obtain k where k: "k \<noteq> ''Plan''"
          "fst s' = AList.update k (grade_of (fst x) (snd x)) (fst s)"
          "set (keys (snd s')) = insert k (set (keys (snd s)))"
        by auto
      let ?c = "AList.update k (grade_of (fst x) (snd x)) courses"
      from k(1,2) s(1) have "fst s' = (''Plan'', v) # ?c" by simp
      moreover from k(1) s(2) have "''Plan'' \<notin> set (keys ?c)" by (simp add: keys_update)
      moreover from k(3) s(3) have "set (keys ?c) \<subseteq> set (keys (snd s'))"
        by (auto simp: keys_update)
      moreover from k(1,3) s(4)
      have "''Plan'' \<in> set (keys (snd s')) \<longleftrightarrow> ''Plan'' \<in> set (keys creds)" by auto
      ultimately show ?thesis by blast
    qed
  qed
  then show ?thesis by simp
qed

lemma course_entries_Plan:
  "''Plan'' \<notin> set (keys courses) \<Longrightarrow> course_entries ((''Plan'', v) # courses) = courses"
  by (force simp: course_entries_def keys_def filter_id_conv)

lemma filtered_courses_Plan:
  assumes "''Plan'' \<notin> set (keys courses)"
  shows "filtered_courses cfg subj ((''Plan'', v) # courses) =
           (if v \<in> set (keys (GPA_VAL cfg)) \<and> ''Plan'' \<notin> set (excluded_courses cfg subj)
            then [''Plan''] else []) @ filtered_courses cfg subj courses"
proof -
  have "filter (\<lambda>course. course \<notin> set (excluded_courses cfg subj) \<and>
                (case map_of ((''Plan'', v) # courses) course of
                   None \<Rightarrow> False
                 | Some grade \<Rightarrow> grade \<in> set (keys (GPA_VAL cfg)))) (keys courses)
        = filtered_courses cfg subj courses"
    unfolding filtered_courses_def using assms by (intro filter_cong) auto
  then show ?thesis by (simp add: filtered_courses_def keys_def)
qed

lemma current_courses_Plan:
  assumes "''Plan'' \<notin> set (keys courses)"
  shows "current_courses cfg subj ((''Plan'', v) # courses) =
           (if v = CURR_SEM cfg \<and> ''Plan'' \<notin> set (excluded_courses cfg subj)
            then [''Plan''] else []) @ current_courses cfg subj courses"
proof -
  have "filter (\<lambda>course. course \<notin> set (excluded_courses cfg subj) \<and>
                map_of ((''Plan'', v) # courses) course = Some (CURR_SEM cfg)) (keys courses)
        = current_courses cfg subj courses"
    unfolding current_courses_def using assms by (intro filter_cong) auto
  then show ?thesis by (simp add: current_courses_def keys_def)
qed

lemma summary_key_distinct:
  "''Num '' @ subj @ ''^ now'' \<noteq> subj @ ''^ GPA''"
proof -
  have "length (''Num '' @ subj @ ''^ now'') \<noteq> length (subj @ ''^ GPA'')" by simp
  then show ?thesis by metis
qed

lemma subj_summary_counts:
  assumes "subj_summary cfg subj subj_grades creds = Inr summary"
  shows "map_of summary (''Num '' @ subj @ ''^ courses'')
           = Some (PyInt (int (length (filtered_courses cfg subj subj_grades))))"
    and "map_of summary (''Num '' @ subj @ ''^ now'')
           = Some (PyInt (int (length (current_courses cfg subj subj_grades))))"
proof -
  from assms obtain counted now c g where
    c: "courses_to_count cfg subj subj_grades = Inr counted" and
    n: "in_progress cfg subj subj_grades = Inr now" and
    s: "summary = [(''Num '' @ subj @ ''^ courses'', PyInt (int (length counted))),
                   (''Num '' @ subj @ ''^ creds'', c),
                   (subj @ ''^ GPA'', g),
                   (''Num '' @ subj @ ''^ now'', PyInt (int (length now)))]"
    by (auto simp: subj_summary_def Let_def split: sum.splits)
  from courses_to_count_Inr [OF c] s
  show "map_of summary (''Num '' @ subj @ ''^ courses'')
           = Some (PyInt (int (length (filtered_courses cfg subj subj_grades))))"
    by simp
  from in_progress_Inr [OF n] s summary_key_distinct [of subj]
  show "map_of summary (''Num '' @ subj @ ''^ now'')
           = Some (PyInt (int (length (current_courses cfg subj subj_grades))))"
    by simp
qed

lemma filtered_courses_keys:
  "set (filtered_courses cfg subj subj_grades) \<subseteq> set (keys subj_grades)"
  by (auto simp: filtered_courses_def)

text \<open>
  C10. When the final segment of a transcript has a line \<open>Plan : v\<close> (the first
  occurrence of the label in that segment), the mapping that \<open>grades_of_subj\<close> returns
  binds the key \<open>Plan\<close> to \<open>v\<close>, next to the course keys: it is the entry
  \<open>(Plan, v)\<close> followed by the course entries, all of which have credits.
  \<open>subj_summary\<close> iterates over this entry as over a course. It is counted exactly when
  \<open>v\<close> is a letter grade of the grade-point table and \<open>Plan\<close> is not excluded, and it
  counts as in progress exactly when \<open>v\<close> is the current-semester marker and \<open>Plan\<close> is
  not excluded. When it is counted and the credit table given to \<open>grades_of_subj\<close> had
  no key \<open>Plan\<close>, the summary raises \<open>KeyError\<close>; the summary returns exactly when the
  subject has an exclusion list and the entry is not counted or that credit table had
  the key \<open>Plan\<close>. In a summary that returns, the number of courses and the number of
  courses in progress are those of the course entries, plus one each when the \<open>Plan\<close>
  entry is counted, or counts as in progress.
\<close>

theorem plan_in_grades:
  assumes "grades_of_subj transcript subj creds = Inr (grades, creds')"
    and "last (re_split semester_rx transcript) = pre @ ''Plan : '' @ v @ newline # post"
    and "newline \<notin> set v"
    and "\<forall>i<length pre. \<not> prefix ''Plan : '' (drop i (last (re_split semester_rx transcript)))"
  shows "map_of grades ''Plan'' = Some v
       \<and> ''Plan'' \<in> set (keys grades)
       \<and> (\<forall>counted. courses_to_count cfg subj grades = Inr counted \<longrightarrow>
            (''Plan'' \<in> set counted
               \<longleftrightarrow> v \<in> set (keys (GPA_VAL cfg)) \<and> ''Plan'' \<notin> set (excluded_courses cfg subj)))
       \<and> (\<forall>now. in_progress cfg subj grades = Inr now \<longrightarrow>
            (''Plan'' \<in> set now \<longleftrightarrow> v = CURR_SEM cfg \<and> ''Plan'' \<notin> set (excluded_courses cfg subj)))
       \<and> (v \<in> set (keys (GPA_VAL cfg)) \<and> ''Plan'' \<notin> set (excluded_courses cfg subj)
            \<and> ''Plan'' \<notin> set (keys creds) \<longrightarrow> subj_summary cfg subj grades creds' = Inl KeyError)
       \<and> grades = (''Plan'', v) # course_entries grades
       \<and> set (keys (course_entries grades)) \<subseteq> set (keys creds')
       \<and> ((\<exists>summary. subj_summary cfg subj grades creds' = Inr summary) \<longleftrightarrow>
            map_of (IGNORE_COURSES cfg) subj \<noteq> None
            \<and> (v \<in> set (keys (GPA_VAL cfg)) \<and> ''Plan'' \<notin> set (excluded_courses cfg subj)
                 \<longrightarrow> ''Plan'' \<in> set (keys creds)))
       \<and> (\<forall>summary. subj_summary cfg subj grades creds' = Inr summary \<longrightarrow>
            map_of summary (''Num '' @ subj @ ''^ courses'')
              = Some (PyInt (int (length (filtered_courses cfg subj (course_entries grades)))
                    + (if v \<in> set (keys (GPA_VAL cfg))
                          \<and> ''Plan'' \<notin> set (excluded_courses cfg subj) then 1 else 0)))
          \<and> map_of summary (''Num '' @ subj @ ''^ now'')
              = Some (PyInt (int (length (current_courses cfg subj (course_entries grades)))
                    + (if v = CURR_SEM cfg
                          \<and> ''Plan'' \<notin> set (excluded_courses cfg subj) then 1 else 0))))"
proof -
  let ?seg = "last (re_split semester_rx transcript)"
  from findall_label_first [OF assms(2,3,4)] obtain vs where
    "findall plan_rx ?seg = v # vs"
    unfolding plan_rx_def by blast
  with grades_of_subj_flat_plan [OF assms(1)] have
    run: "for_each (line_loop subj) (course_lines subj transcript) ([(''Plan'', v)], creds)
          = Inr (grades, creds')"
    by simp
  have nf: "filter (\<lambda>(semester, line). course_of subj line = Inr ''Plan'')
              (course_lines subj transcript) = []"
    using course_of_not_Plan by (auto simp: filter_empty_conv)
  have plan: "map_of grades ''Plan'' = Some v"
    using line_loop_last_wins [OF run, of "''Plan''"] unfolding nf by simp
  then have key: "''Plan'' \<in> set (keys grades)"
    using map_of_keys [of grades "''Plan''"] by simp
  then have ne: "grades \<noteq> []" by (auto simp: keys_def)
  have counted: "''Plan'' \<in> set counted
      \<longleftrightarrow> v \<in> set (keys (GPA_VAL cfg)) \<and> ''Plan'' \<notin> set (excluded_courses cfg subj)"
    if "courses_to_count cfg subj grades = Inr counted" for counted
    using courses_to_count_Inr [OF that] plan key
    by (auto simp: filtered_courses_def)
  have now: "''Plan'' \<in> set now \<longleftrightarrow> v = CURR_SEM cfg \<and> ''Plan'' \<notin> set (excluded_courses cfg subj)"
    if "in_progress cfg subj grades = Inr now" for now
    using that plan key ne
    by (auto simp: in_progress_def excluded_courses_def getitem_def split: option.splits)
  have err: "subj_summary cfg subj grades creds' = Inl KeyError"
    if "v \<in> set (keys (GPA_VAL cfg))" "''Plan'' \<notin> set (excluded_courses cfg subj)"
       "''Plan'' \<notin> set (keys creds)"
  proof (cases "subj_summary cfg subj grades creds'")
    case (Inl e)
    then show ?thesis using subj_summary_raises by blast
  next
    case (Inr summary)
    then have "set (filtered_courses cfg subj grades) \<subseteq> set (keys creds')"
      using subj_summary_returns_iff [of cfg subj grades creds'] by blast
    moreover have "''Plan'' \<in> set (filtered_courses cfg subj grades)"
      using that(1,2) plan key by (auto simp: filtered_courses_def)
    moreover have "''Plan'' \<notin> set (keys creds')"
      using grades_of_subj_Plan_creds [OF assms(1) that(3)] .
    ultimately show ?thesis by blast
  qed
  from line_loop_plan_first [OF run] obtain courses where
    g: "grades = (''Plan'', v) # courses" and
    np: "''Plan'' \<notin> set (keys courses)" and
    sub: "set (keys courses) \<subseteq> set (keys creds')" and
    pc: "''Plan'' \<in> set (keys creds') \<longleftrightarrow> ''Plan'' \<in> set (keys creds)"
    by blast
  from g np have ce: "course_entries grades = courses" by (simp add: course_entries_Plan)
  let ?counted = "v \<in> set (keys (GPA_VAL cfg)) \<and> ''Plan'' \<notin> set (excluded_courses cfg subj)"
  let ?current = "v = CURR_SEM cfg \<and> ''Plan'' \<notin> set (excluded_courses cfg subj)"
  have fc: "filtered_courses cfg subj grades =
              (if ?counted then [''Plan''] else []) @ filtered_courses cfg subj courses"
    unfolding g by (rule filtered_courses_Plan [OF np])
  have cc: "current_courses cfg subj grades =
              (if ?current then [''Plan''] else []) @ current_courses cfg subj courses"
    unfolding g by (rule current_courses_Plan [OF np])
  have struct: "grades = (''Plan'', v) # course_entries grades" using g ce by simp
  have credits: "set (keys (course_entries grades)) \<subseteq> set (keys creds')" using sub ce by simp
  have "set (filtered_courses cfg subj courses) \<subseteq> set (keys creds')"
    using filtered_courses_keys [of cfg subj courses] sub by blast
  with fc pc have "set (filtered_courses cfg subj grades) \<subseteq> set (keys creds')
      \<longleftrightarrow> (?counted \<longrightarrow> ''Plan'' \<in> set (keys creds))"
    by auto
  with ne have returns: "(\<exists>summary. subj_summary cfg subj grades creds' = Inr summary) \<longleftrightarrow>
      map_of (IGNORE_COURSES cfg) subj \<noteq> None \<and> (?counted \<longrightarrow> ''Plan'' \<in> set (keys creds))"
    by (simp add: subj_summary_returns_iff)
  have counts: "map_of summary (''Num '' @ subj @ ''^ courses'')
              = Some (PyInt (int (length (filtered_courses cfg subj (course_entries grades)))
                    + (if ?counted then 1 else 0)))
          \<and> map_of summary (''Num '' @ subj @ ''^ now'')
              = Some (PyInt (int (length (current_courses cfg subj (course_entries grades)))
                    + (if ?current then 1 else 0)))"
    if "subj_summary cfg subj grades creds' = Inr summary" for summary
    using subj_summary_counts [OF that] fc cc ce by simp
  from plan key counted now err struct credits returns counts show ?thesis by blast
qed

theorem plan_in_grades_witness:
  "grades_of_subj
     ''Name : Ann Lee\<newline>Fall 2020\<newline>MTH 9 Calculus 4.00 4.00 A\<newline>Plan : Math BS\<newline>''
     ''MTH'' []
     = Inr ([(''Plan'', ''Math BS''), (''MTH 9'', ''A'')], [(''MTH 9'', 4)])
   \<and> last (re_split semester_rx
        ''Name : Ann Lee\<newline>Fall 2020\<newline>MTH 9 Calculus 4.00 4.00 A\<newline>Plan : Math BS\<newline>'')
       = ''\<newline>MTH 9 Calculus 4.00 4.00 A\<newline>'' @ ''Plan : '' @ ''Math BS'' @ newline # []
   \<and> map_of [(''Plan'', ''Math BS''), (''MTH 9'', ''A'')] ''Plan'' = Some ''Math BS''
   \<and> subj_summary default_config ''MTH'' [(''Plan'', ''Math BS''), (''MTH 9'', ''A'')] [(''MTH 9'', 4)]
       = Inr [(''Num MTH^ courses'', PyInt 1), (''Num MTH^ creds'', PyFloat 4),
              (''MTH^ GPA'', PyFloat 4), (''Num MTH^ now'', PyInt 0)]
   \<and> grades_of_subj ''Name : Ann Lee\<newline>Plan : A\<newline>'' ''MTH'' [] = Inr ([(''Plan'', ''A'')], [])
   \<and> last (re_split semester_rx ''Name : Ann Lee\<newline>Plan : A\<newline>'')
       = ''Name : Ann Lee\<newline>'' @ ''Plan : '' @ ''A'' @ newline # []
   \<and> courses_to_count default_config ''MTH'' [(''Plan'', ''A'')] = Inr [''Plan'']
   \<and> subj_summary default_config ''MTH'' [(''Plan'', ''A'')] [] = Inl KeyError
   \<and> grades_of_subj
       ''Name : Ann Lee\<newline>Fall 2020\<newline>MTH 9 Calculus 4.00 4.00 A\<newline>Plan : S22\<newline>''
       ''MTH'' []
       = Inr ([(''Plan'', ''S22''), (''MTH 9'', ''A'')], [(''MTH 9'', 4)])
   \<and> last (re_split semester_rx
        ''Name : Ann Lee\<newline>Fall 2020\<newline>MTH 9 Calculus 4.00 4.00 A\<newline>Plan : S22\<newline>'')
       = ''\<newline>MTH 9 Calculus 4.00 4.00 A\<newline>'' @ ''Plan : '' @ ''S22'' @ newline # []
   \<and> subj_summary default_config ''MTH'' [(''Plan'', ''S22''), (''MTH 9'', ''A'')] [(''MTH 9'', 4)]
       = Inr [(''Num MTH^ courses'', PyInt 1), (''Num MTH^ creds'', PyFloat 4),
              (''MTH^ GPA'', PyFloat 4), (''Num MTH^ now'', PyInt 1)]
   \<and> current_courses default_config ''MTH'' (course_entries [(''Plan'', ''S22''), (''MTH 9'', ''A'')]) = []
   \<and> map_of [(''Num MTH^ courses'', PyInt 1), (''Num MTH^ creds'', PyFloat 4),
              (''MTH^ GPA'', PyFloat 4), (''Num MTH^ now'', PyInt 1)] (''Num '' @ ''MTH'' @ ''^ now'')
       = Some (PyInt (int (length (current_courses default_config ''MTH''
                                     (course_entries [(''Plan'', ''S22''), (''MTH 9'', ''A'')]))) + 1))"
proof -
  have a1: "grades_of_subj
     ''Name : Ann Lee\<newline>Fall 2020\<newline>MTH 9 Calculus 4.00 4.00 A\<newline>Plan : Math BS\<newline>''
     ''MTH'' []
     = Inr ([(''Plan'', ''Math BS''), (''MTH 9'', ''A'')], [(''MTH 9'', 4)])"
    by code_simp
  have b1: "last (re_split semester_rx
        ''Name : Ann Lee\<newline>Fall 2020\<newline>MTH 9 Calculus 4.00 4.00 A\<newline>Plan : Math BS\<newline>'')
       = ''\<newline>MTH 9 Calculus 4.00 4.00 A\<newline>'' @ ''Plan : '' @ ''Math BS'' @ newline # []"
    by code_simp
  have c1: "newline \<notin> set ''Math BS''"
    by code_simp
  have d1: "\<forall>i<length ''\<newline>MTH 9 Calculus 4.00 4.00 A\<newline>''.
      \<not> prefix ''Plan : '' (drop i (last (re_split semester_rx
        ''Name : Ann Lee\<newline>Fall 2020\<newline>MTH 9 Calculus 4.00 4.00 A\<newline>Plan : Math BS\<newline>'')))"
    unfolding all_less_list_all by code_simp
  have a2: "grades_of_subj ''Name : Ann Lee\<newline>Plan : A\<newline>'' ''MTH'' []
            = Inr ([(''Plan'', ''A'')], [])"
    by code_simp
  have b2: "last (re_split semester_rx ''Name : Ann Lee\<newline>Plan : A\<newline>'')
       = ''Name : Ann Lee\<newline>'' @ ''Plan : '' @ ''A'' @ newline # []"
    by code_simp
  have c2: "newline \<notin> set ''A''"
    by code_simp
  have d2: "\<forall>i<length ''Name : Ann Lee\<newline>''.
      \<not> prefix ''Plan : '' (drop i (last (re_split semester_rx ''Name : Ann Lee\<newline>Plan : A\<newline>'')))"
    unfolding all_less_list_all by code_simp
  have e2: "''A'' \<in> set (keys (GPA_VAL default_config)) \<and> ''Plan'' \<notin> set (excluded_courses default_config ''MTH'')
            \<and> ''Plan'' \<notin> set (keys ([] :: creds))"
    by code_simp
  have f2: "courses_to_count default_config ''MTH'' [(''Plan'', ''A'')] = Inr [''Plan'']"
    by code_simp
  have e1: "subj_summary default_config ''MTH'' [(''Plan'', ''Math BS''), (''MTH 9'', ''A'')] [(''MTH 9'', 4)]
       = Inr [(''Num MTH^ courses'', PyInt 1), (''Num MTH^ creds'', PyFloat 4),
              (''MTH^ GPA'', PyFloat 4), (''Num MTH^ now'', PyInt 0)]"
    by code_simp
  have a3: "grades_of_subj
       ''Name : Ann Lee\<newline>Fall 2020\<newline>MTH 9 Calculus 4.00 4.00 A\<newline>Plan : S22\<newline>''
       ''MTH'' []
       = Inr ([(''Plan'', ''S22''), (''MTH 9'', ''A'')], [(''MTH 9'', 4)])"
    by code_simp
  have b3: "last (re_split semester_rx
        ''Name : Ann Lee\<newline>Fall 2020\<newline>MTH 9 Calculus 4.00 4.00 A\<newline>Plan : S22\<newline>'')
       = ''\<newline>MTH 9 Calculus 4.00 4.00 A\<newline>'' @ ''Plan : '' @ ''S22'' @ newline # []"
    by code_simp
  have c3: "newline \<notin> set ''S22''"
    by code_simp
  have d3: "\<forall>i<length ''\<newline>MTH 9 Calculus 4.00 4.00 A\<newline>''.
      \<not> prefix ''Plan : '' (drop i (last (re_split semester_rx
        ''Name : Ann Lee\<newline>Fall 2020\<newline>MTH 9 Calculus 4.00 4.00 A\<newline>Plan : S22\<newline>'')))"
    unfolding all_less_list_all by code_simp
  have e3: "subj_summary default_config ''MTH'' [(''Plan'', ''S22''), (''MTH 9'', ''A'')] [(''MTH 9'', 4)]
       = Inr [(''Num MTH^ courses'', PyInt 1), (''Num MTH^ creds'', PyFloat 4),
              (''MTH^ GPA'', PyFloat 4), (''Num MTH^ now'', PyInt 1)]"
    by code_simp
  have f3: "''S22'' = CURR_SEM default_config \<and> ''Plan'' \<notin> set (excluded_courses default_config ''MTH'')"
    by code_simp
  have g3: "current_courses default_config ''MTH'' (course_entries [(''Plan'', ''S22''), (''MTH 9'', ''A'')]) = []"
    by code_simp
  from plan_in_grades [OF a3 b3 c3 d3, of default_config] e3
  have "map_of [(''Num MTH^ courses'', PyInt 1), (''Num MTH^ creds'', PyFloat 4),
              (''MTH^ GPA'', PyFloat 4), (''Num MTH^ now'', PyInt 1)] (''Num '' @ ''MTH'' @ ''^ now'')
       = Some (PyInt (int (length (current_courses default_config ''MTH''
                                     (course_entries [(''Plan'', ''S22''), (''MTH 9'', ''A'')])))
           + (if ''S22'' = CURR_SEM default_config
                 \<and> ''Plan'' \<notin> set (excluded_courses default_config ''MTH'') then 1 else 0)))"
    by blast
  then have h3: "map_of [(''Num MTH^ courses'', PyInt 1), (''Num MTH^ creds'', PyFloat 4),
              (''MTH^ GPA'', PyFloat 4), (''Num MTH^ now'', PyInt 1)] (''Num '' @ ''MTH'' @ ''^ now'')
       = Some (PyInt (int (length (current_courses default_config ''MTH''
                                     (course_entries [(''Plan'', ''S22''), (''MTH 9'', ''A'')]))) + 1))"
    by (simp only: if_P [OF f3])
  from plan_in_grades [OF a1 b1 c1 d1]
  have "map_of [(''Plan'', ''Math BS''), (''MTH 9'', ''A'')] ''Plan'' = Some ''Math BS''"
    by blast
  moreover from plan_in_grades [OF a2 b2 c2 d2] e2
  have "subj_summary default_config ''MTH'' [(''Plan'', ''A'')] [] = Inl KeyError"
    by blast
  ultimately show ?thesis using a1 b1 e1 a2 b2 f2 a3 b3 e3 g3 h3 by blast
qed

section \<open>Calls in one process\<close>

text \<open>
  The default value of the parameter \<^verbatim>\<open>creds\<close> of \<^verbatim>\<open>transcript_data\<close> is one dictionary,
  created when the function is defined; a call that leaves \<^verbatim>\<open>creds\<close> out reads and updates
  that object. \<open>calls\<close> is a script of such calls, one after the other,
  \<^verbatim>\<open>df1 = transcript_data(ts1); df2 = transcript_data(ts2); ...\<close>,
  started with the given content of the default dictionary, which is empty in a new
  process. It returns the tables of the calls.
\<close>

fun calls ::
  "config \<Rightarrow> (string list \<Rightarrow> string list) \<Rightarrow> string list list \<Rightarrow> creds \<Rightarrow> error + data_frame list" where
  "calls cfg natsorted [] default_creds = Inr []"
| "calls cfg natsorted (transcripts # rest) default_creds =
     (case transcript_data cfg natsorted transcripts default_creds of
        Inl e \<Rightarrow> Inl e
      | Inr (df, default_creds') \<Rightarrow>
          (case calls cfg natsorted rest default_creds' of
             Inl e \<Rightarrow> Inl e
           | Inr dfs \<Rightarrow> Inr (df # dfs)))"

text \<open>Two transcripts: the first gives \<open>MTH 9\<close> four credits, the second three.\<close>

abbreviation transcript_A :: string where
  "transcript_A \<equiv>
     ''Name : Ann Lee\<newline>Student ID: 100\<newline>Sex : F\<newline>Fall 2020\<newline>MTH 9 Calculus 4.00 4.00 A\<newline>MTH 22 Algebra 3.00 3.00 B\<newline>''"

abbreviation transcript_B :: string where
  "transcript_B \<equiv>
     ''Name : Bob Ray\<newline>Student ID: 200\<newline>Sex : M\<newline>Fall 2021\<newline>MTH 9 Calculus 3.00 3.00 A\<newline>MTH 10 Algebra 3.00 3.00 B\<newline>''"

abbreviation record_A :: "rat \<Rightarrow> rat \<Rightarrow> (string, pyval) dict" where
  "record_A credits gpa \<equiv>
     [(''Name'', PyStr ''Ann Lee''), (''Student_ID'', PyStr ''100''), (''Sex'', PyStr ''F''),
      (''Address1'', PyStr []), (''Address2'', PyStr []), (''Address3'', PyStr []),
      (''MTH 9'', PyStr ''A''), (''MTH 22'', PyStr ''B''), (''Num MTH^ courses'', PyInt 2),
      (''Num MTH^ creds'', PyFloat credits), (''MTH^ GPA'', PyFloat gpa),
      (''Num MTH^ now'', PyInt 0), (''Num PHY^ courses'', PyInt 0),
      (''Num PHY^ creds'', PyInt 0), (''PHY^ GPA'', PyNaN), (''Num PHY^ now'', PyInt 0)]"

abbreviation record_B :: "rat \<Rightarrow> rat \<Rightarrow> (string, pyval) dict" where
  "record_B credits gpa \<equiv>
     [(''Name'', PyStr ''Bob Ray''), (''Student_ID'', PyStr ''200''), (''Sex'', PyStr ''M''),
      (''Address1'', PyStr []), (''Address2'', PyStr []), (''Address3'', PyStr []),
      (''MTH 9'', PyStr ''A''), (''MTH 10'', PyStr ''B''), (''Num MTH^ courses'', PyInt 2),
      (''Num MTH^ creds'', PyFloat credits), (''MTH^ GPA'', PyFloat gpa),
      (''Num MTH^ now'', PyInt 0), (''Num PHY^ courses'', PyInt 0),
      (''Num PHY^ creds'', PyInt 0), (''PHY^ GPA'', PyNaN), (''Num PHY^ now'', PyInt 0)]"

lemma records_A_new:
  "records_of default_config [transcript_A] [] = Inr ([record_A 7 (25 / 7)], [(''MTH 9'', 4), (''MTH 22'', 3)])"
  by code_simp

lemma records_B_after_A:
  "records_of default_config [transcript_B] [(''MTH 9'', 4), (''MTH 22'', 3)]
   = Inr ([record_B 7 (25 / 7)], [(''MTH 9'', 4), (''MTH 22'', 3), (''MTH 10'', 3)])"
  by code_simp

lemma records_B_new:
  "records_of default_config [transcript_B] [] = Inr ([record_B 6 (7 / 2)], [(''MTH 9'', 3), (''MTH 10'', 3)])"
  by code_simp

lemma records_A_after_B:
  "records_of default_config [transcript_A] [(''MTH 9'', 3), (''MTH 10'', 3)]
   = Inr ([record_A 6 (7 / 2)], [(''MTH 9'', 3), (''MTH 10'', 3), (''MTH 22'', 3)])"
  by code_simp

lemma records_B_after_B_A:
  "records_of default_config [transcript_B] [(''MTH 9'', 3), (''MTH 10'', 3), (''MTH 22'', 3)]
   = Inr ([record_B 6 (7 / 2)], [(''MTH 9'', 3), (''MTH 10'', 3), (''MTH 22'', 3)])"
  by code_simp

text \<open>
  C6 fails on the code. In a new process, after a call on a transcript that gives
  \<open>MTH 9\<close> four credits, the call on a transcript that gives it three credits returns a
  table whose \<open>MTH^ GPA\<close> cell is 25/7: the credit of the earlier call is used. The same
  call alone in a new process returns 7/2 in that cell. And of two calls on the same
  transcript with a call on another one between them, the later returns a table with a
  column for a course of that other transcript, which the earlier does not have. The
  only assumption on \<open>natsorted\<close> is that it returns the keys it is given.
\<close>

theorem default_creds_persist:
  assumes "\<And>ks. set (natsorted ks) = set ks"
  shows "\<exists>df_A df_B' df_B df_B1 df_A2 df_B3.
           calls default_config natsorted [[transcript_A], [transcript_B]] [] = Inr [df_A, df_B']
         \<and> calls default_config natsorted [[transcript_B]] [] = Inr [df_B]
         \<and> columns df_B' ! 8 = ''MTH^ GPA'' \<and> columns df_B ! 8 = ''MTH^ GPA''
         \<and> hd (rows df_B') ! 8 = Some (PyFloat (25 / 7))
         \<and> hd (rows df_B) ! 8 = Some (PyFloat (7 / 2))
         \<and> df_B' \<noteq> df_B
         \<and> calls default_config natsorted [[transcript_B], [transcript_A], [transcript_B]] []
             = Inr [df_B1, df_A2, df_B3]
         \<and> ''MTH 22'' \<in> set (columns df_B3) \<and> ''MTH 22'' \<notin> set (columns df_B1)
         \<and> df_B3 \<noteq> df_B1"
proof -
  let ?cols = "[''Name'', ''Student_ID'', ''Plan''] @ [''Sex'', ''Address1'', ''Address2'', ''Address3'']
               @ subj_summ_cols default_config"
  have cols8: "(?cols @ xs) ! 8 = ''MTH^ GPA''" for xs
    by (simp add: subj_summ_cols_def default_config_def)
  have nocol: "''MTH 22'' \<notin> set ?cols"
    by (simp add: subj_summ_cols_def default_config_def)
  have A: "transcript_data default_config natsorted [transcript_A] []
           = Inr (DataFrame [record_A 7 (25 / 7)] (?cols @ natsorted [''MTH 9'', ''MTH 22'']),
                  [(''MTH 9'', 4), (''MTH 22'', 3)])"
    by (simp add: transcript_data_def records_A_new keys_def)
  have BA: "transcript_data default_config natsorted [transcript_B] [(''MTH 9'', 4), (''MTH 22'', 3)]
           = Inr (DataFrame [record_B 7 (25 / 7)]
                    (?cols @ natsorted [''MTH 9'', ''MTH 22'', ''MTH 10'']),
                  [(''MTH 9'', 4), (''MTH 22'', 3), (''MTH 10'', 3)])"
    by (simp add: transcript_data_def records_B_after_A keys_def)
  have B: "transcript_data default_config natsorted [transcript_B] []
           = Inr (DataFrame [record_B 6 (7 / 2)] (?cols @ natsorted [''MTH 9'', ''MTH 10'']),
                  [(''MTH 9'', 3), (''MTH 10'', 3)])"
    by (simp add: transcript_data_def records_B_new keys_def)
  have AB: "transcript_data default_config natsorted [transcript_A] [(''MTH 9'', 3), (''MTH 10'', 3)]
           = Inr (DataFrame [record_A 6 (7 / 2)]
                    (?cols @ natsorted [''MTH 9'', ''MTH 10'', ''MTH 22'']),
                  [(''MTH 9'', 3), (''MTH 10'', 3), (''MTH 22'', 3)])"
    by (simp add: transcript_data_def records_A_after_B keys_def)
  have BBA: "transcript_data default_config natsorted [transcript_B] [(''MTH 9'', 3), (''MTH 10'', 3), (''MTH 22'', 3)]
           = Inr (DataFrame [record_B 6 (7 / 2)]
                    (?cols @ natsorted [''MTH 9'', ''MTH 10'', ''MTH 22'']),
                  [(''MTH 9'', 3), (''MTH 10'', 3), (''MTH 22'', 3)])"
    by (simp add: transcript_data_def records_B_after_B_A keys_def)
  let ?df_A = "DataFrame [record_A 7 (25 / 7)] (?cols @ natsorted [''MTH 9'', ''MTH 22''])"
  let ?df_B' = "DataFrame [record_B 7 (25 / 7)] (?cols @ natsorted [''MTH 9'', ''MTH 22'', ''MTH 10''])"
  let ?df_B = "DataFrame [record_B 6 (7 / 2)] (?cols @ natsorted [''MTH 9'', ''MTH 10''])"
  let ?df_A2 = "DataFrame [record_A 6 (7 / 2)] (?cols @ natsorted [''MTH 9'', ''MTH 10'', ''MTH 22''])"
  let ?df_B3 = "DataFrame [record_B 6 (7 / 2)] (?cols @ natsorted [''MTH 9'', ''MTH 10'', ''MTH 22''])"
  have 1: "calls default_config natsorted [[transcript_A], [transcript_B]] [] = Inr [?df_A, ?df_B']"
    by (simp only: calls.simps A BA sum.case prod.case)
  have 2: "calls default_config natsorted [[transcript_B]] [] = Inr [?df_B]"
    by (simp only: calls.simps B sum.case prod.case)
  have 3: "calls default_config natsorted [[transcript_B], [transcript_A], [transcript_B]] []
           = Inr [?df_B, ?df_A2, ?df_B3]"
    by (simp only: calls.simps B AB BBA sum.case prod.case)
  have 4: "columns ?df_B' ! 8 = ''MTH^ GPA''" "columns ?df_B ! 8 = ''MTH^ GPA''"
    using cols8 by (simp_all add: DataFrame_def)
  have 5: "hd (rows ?df_B') ! 8 = Some (PyFloat (25 / 7))"
          "hd (rows ?df_B) ! 8 = Some (PyFloat (7 / 2))"
    by (simp_all add: DataFrame_def subj_summ_cols_def default_config_def)
  from 5 have 6: "?df_B' \<noteq> ?df_B" by auto
  have 7: "''MTH 22'' \<in> set (columns ?df_B3)" "''MTH 22'' \<notin> set (columns ?df_B)"
    using nocol assms by (simp_all add: DataFrame_def)
  then have 8: "?df_B3 \<noteq> ?df_B" by auto
  from 1 2 3 4 5 6 7 8 show ?thesis by blast
qed

theorem default_creds_persist_witness:
  "\<exists>df_B1 df_A2 df_B3.
     calls default_config id [[transcript_B], [transcript_A], [transcript_B]] [] = Inr [df_B1, df_A2, df_B3]
     \<and> df_B3 \<noteq> df_B1"
  using default_creds_persist [of id] by auto

end
